theory Spec2Isabelle
  imports Main "HOL-Library.Word"
begin

unbundle bit_operations_syntax

section \<open>Bytes, buffers and the build configuration\<close>

text \<open>
  The library is C: \<^verbatim>\<open>uint8_t\<close> is an 8-bit word, a buffer is a list of bytes, and a
  pointer that may be \<^verbatim>\<open>NULL\<close> is an optional buffer. Lengths (\<^verbatim>\<open>size_t\<close>) are natural
  numbers; where the code widens a length to \<^verbatim>\<open>uint64_t\<close> and multiplies it, the
  product is a 64-bit word and wraps.
\<close>

type_synonym byte = "8 word"

text \<open>
  \<^verbatim>\<open>aes.h\<close> defines the four macros \<^verbatim>\<open>AES128\<close>, \<^verbatim>\<open>AES192\<close>, \<^verbatim>\<open>AES256\<close> and
  \<^verbatim>\<open>AES512\<close>; a field below is true when the macro is defined as 1. The header as it is
  written defines all four as 1.
\<close>

record config =
  AES128 :: bool
  AES192 :: bool
  AES256 :: bool
  AES512 :: bool

definition shipped :: config where
  "shipped = \<lparr>AES128 = True, AES192 = True, AES256 = True, AES512 = True\<rparr>"

definition AES_BLOCKLEN :: nat where
  "AES_BLOCKLEN = 16"

text \<open>The \<^verbatim>\<open>#if\<close> chain of \<^verbatim>\<open>aes.h\<close> (lines 34 to 53): 512 first, then 256, then 192.\<close>

definition AES_KEYLEN :: "config \<Rightarrow> nat" where
  "AES_KEYLEN cfg = (if AES512 cfg then 64 else if AES256 cfg then 32 else if AES192 cfg then 24 else 16)"

definition Nr :: "config \<Rightarrow> nat" where
  "Nr cfg = (if AES512 cfg then 22 else if AES256 cfg then 14 else if AES192 cfg then 12 else 10)"

definition AES_keyExpSize :: "config \<Rightarrow> nat" where
  "AES_keyExpSize cfg = (if AES512 cfg then 368 else if AES256 cfg then 240 else if AES192 cfg then 208 else 176)"

definition Nb :: nat where
  "Nb = 4"

text \<open>The \<^verbatim>\<open>#if\<close> chain of \<^verbatim>\<open>aes.c\<close> (lines 44 to 56): 256 first, then 192, then 512.\<close>

definition Nk :: "config \<Rightarrow> nat" where
  "Nk cfg = (if AES256 cfg then 8 else if AES192 cfg then 6 else if AES512 cfg then 16 else 4)"

definition AES_GCM_TAG_LEN :: nat where
  "AES_GCM_TAG_LEN = 16"

definition AES_GCM_IV_LEN :: nat where
  "AES_GCM_IV_LEN = 12"

section \<open>Tables\<close>

definition sbox :: "byte list" where
  "sbox = [
     0x63, 0x7c, 0x77, 0x7b, 0xf2, 0x6b, 0x6f, 0xc5, 0x30, 0x01, 0x67, 0x2b, 0xfe, 0xd7, 0xab, 0x76,
     0xca, 0x82, 0xc9, 0x7d, 0xfa, 0x59, 0x47, 0xf0, 0xad, 0xd4, 0xa2, 0xaf, 0x9c, 0xa4, 0x72, 0xc0,
     0xb7, 0xfd, 0x93, 0x26, 0x36, 0x3f, 0xf7, 0xcc, 0x34, 0xa5, 0xe5, 0xf1, 0x71, 0xd8, 0x31, 0x15,
     0x04, 0xc7, 0x23, 0xc3, 0x18, 0x96, 0x05, 0x9a, 0x07, 0x12, 0x80, 0xe2, 0xeb, 0x27, 0xb2, 0x75,
     0x09, 0x83, 0x2c, 0x1a, 0x1b, 0x6e, 0x5a, 0xa0, 0x52, 0x3b, 0xd6, 0xb3, 0x29, 0xe3, 0x2f, 0x84,
     0x53, 0xd1, 0x00, 0xed, 0x20, 0xfc, 0xb1, 0x5b, 0x6a, 0xcb, 0xbe, 0x39, 0x4a, 0x4c, 0x58, 0xcf,
     0xd0, 0xef, 0xaa, 0xfb, 0x43, 0x4d, 0x33, 0x85, 0x45, 0xf9, 0x02, 0x7f, 0x50, 0x3c, 0x9f, 0xa8,
     0x51, 0xa3, 0x40, 0x8f, 0x92, 0x9d, 0x38, 0xf5, 0xbc, 0xb6, 0xda, 0x21, 0x10, 0xff, 0xf3, 0xd2,
     0xcd, 0x0c, 0x13, 0xec, 0x5f, 0x97, 0x44, 0x17, 0xc4, 0xa7, 0x7e, 0x3d, 0x64, 0x5d, 0x19, 0x73,
     0x60, 0x81, 0x4f, 0xdc, 0x22, 0x2a, 0x90, 0x88, 0x46, 0xee, 0xb8, 0x14, 0xde, 0x5e, 0x0b, 0xdb,
     0xe0, 0x32, 0x3a, 0x0a, 0x49, 0x06, 0x24, 0x5c, 0xc2, 0xd3, 0xac, 0x62, 0x91, 0x95, 0xe4, 0x79,
     0xe7, 0xc8, 0x37, 0x6d, 0x8d, 0xd5, 0x4e, 0xa9, 0x6c, 0x56, 0xf4, 0xea, 0x65, 0x7a, 0xae, 0x08,
     0xba, 0x78, 0x25, 0x2e, 0x1c, 0xa6, 0xb4, 0xc6, 0xe8, 0xdd, 0x74, 0x1f, 0x4b, 0xbd, 0x8b, 0x8a,
     0x70, 0x3e, 0xb5, 0x66, 0x48, 0x03, 0xf6, 0x0e, 0x61, 0x35, 0x57, 0xb9, 0x86, 0xc1, 0x1d, 0x9e,
     0xe1, 0xf8, 0x98, 0x11, 0x69, 0xd9, 0x8e, 0x94, 0x9b, 0x1e, 0x87, 0xe9, 0xce, 0x55, 0x28, 0xdf,
     0x8c, 0xa1, 0x89, 0x0d, 0xbf, 0xe6, 0x42, 0x68, 0x41, 0x99, 0x2d, 0x0f, 0xb0, 0x54, 0xbb, 0x16]"

definition getSBoxValue :: "byte \<Rightarrow> byte" where
  "getSBoxValue num = sbox ! unat num"

definition Rcon :: "byte list" where
  "Rcon = [0x8d, 0x01, 0x02, 0x04, 0x08, 0x10, 0x20, 0x40, 0x80, 0x1b, 0x36]"

text \<open>
  A read of \<^verbatim>\<open>Rcon[i]\<close>. The table has 11 entries; a read past it is undefined in C and
  is the value \<open>None\<close> here.
\<close>

definition Rcon_at :: "nat \<Rightarrow> byte option" where
  "Rcon_at i = (if i < length Rcon then Some (Rcon ! i) else None)"

section \<open>Key schedule\<close>

text \<open>One pass of the first loop of \<^verbatim>\<open>KeyExpansion\<close>: word \<open>i\<close> of the key is copied.\<close>

definition key_copy_word :: "byte list \<Rightarrow> nat \<Rightarrow> byte list \<Rightarrow> byte list" where
  "key_copy_word Key i RoundKey =
     (let r0 = RoundKey[(i * 4) + 0 := Key ! ((i * 4) + 0)];
          r1 = r0[(i * 4) + 1 := Key ! ((i * 4) + 1)];
          r2 = r1[(i * 4) + 2 := Key ! ((i * 4) + 2)];
          r3 = r2[(i * 4) + 3 := Key ! ((i * 4) + 3)]
      in r3)"

text \<open>
  One pass of the second loop: \<open>tempa\<close> is word \<open>i - 1\<close>; RotWord, SubWord and the round
  constant when \<open>i mod Nk = 0\<close>; under \<^verbatim>\<open>#if Nk > 6\<close>, SubWord when \<open>i mod Nk = 4\<close>;
  then word \<open>i\<close> is word \<open>i - Nk\<close> XOR \<open>tempa\<close>.
\<close>

definition key_expand_word :: "config \<Rightarrow> nat \<Rightarrow> byte list \<Rightarrow> byte list option" where
  "key_expand_word cfg i RoundKey =
     (let k = (i - 1) * 4;
          tempa = [RoundKey ! (k + 0), RoundKey ! (k + 1), RoundKey ! (k + 2), RoundKey ! (k + 3)];
          tempa1 =
            (if i mod Nk cfg = 0 then
               (let rot = [tempa ! 1, tempa ! 2, tempa ! 3, tempa ! 0];
                    sub = [getSBoxValue (rot ! 0), getSBoxValue (rot ! 1),
                           getSBoxValue (rot ! 2), getSBoxValue (rot ! 3)]
                in case Rcon_at (i div Nk cfg) of
                     None \<Rightarrow> None
                   | Some rc \<Rightarrow> Some (sub[0 := (sub ! 0) XOR rc]))
             else Some tempa)
      in case tempa1 of
           None \<Rightarrow> None
         | Some t1 \<Rightarrow>
             (let t2 = (if Nk cfg > 6 then
                          (if i mod Nk cfg = 4 then
                             [getSBoxValue (t1 ! 0), getSBoxValue (t1 ! 1),
                              getSBoxValue (t1 ! 2), getSBoxValue (t1 ! 3)]
                           else t1)
                        else t1);
                  j = i * 4;
                  k = (i - Nk cfg) * 4;
                  r0 = RoundKey[j + 0 := (RoundKey ! (k + 0)) XOR (t2 ! 0)];
                  r1 = r0[j + 1 := (r0 ! (k + 1)) XOR (t2 ! 1)];
                  r2 = r1[j + 2 := (r1 ! (k + 2)) XOR (t2 ! 2)];
                  r3 = r2[j + 3 := (r2 ! (k + 3)) XOR (t2 ! 3)]
              in Some r3))"

definition key_expand_from :: "config \<Rightarrow> nat list \<Rightarrow> byte list option \<Rightarrow> byte list option" where
  "key_expand_from cfg is r =
     fold (\<lambda>i r. case r of None \<Rightarrow> None | Some RoundKey \<Rightarrow> key_expand_word cfg i RoundKey) is r"

text \<open>
  \<^verbatim>\<open>KeyExpansion(RoundKey, Key)\<close>: the result is the schedule written into \<open>RoundKey\<close>, or
  \<open>None\<close> when a read left the round-constant table.
\<close>

definition KeyExpansion :: "config \<Rightarrow> byte list \<Rightarrow> byte list \<Rightarrow> byte list option" where
  "KeyExpansion cfg RoundKey Key =
     key_expand_from cfg [Nk cfg ..< Nb * (Nr cfg + 1)]
       (Some (fold (key_copy_word Key) [0 ..< Nk cfg] RoundKey))"

section \<open>Block cipher\<close>

text \<open>
  \<^verbatim>\<open>state_t\<close> is \<^verbatim>\<open>uint8_t[4][4]\<close> laid over a 16-byte buffer: \<^verbatim>\<open>(*state)[i][j]\<close> is
  byte \<open>i * 4 + j\<close> of the buffer.
\<close>

definition AddRoundKey :: "nat \<Rightarrow> byte list \<Rightarrow> byte list \<Rightarrow> byte list" where
  "AddRoundKey round state RoundKey =
     fold (\<lambda>i. fold (\<lambda>j s. s[i * 4 + j := (s ! (i * 4 + j)) XOR (RoundKey ! ((round * Nb * 4) + (i * Nb) + j))])
                  [0..<4])
          [0..<4] state"

definition SubBytes :: "byte list \<Rightarrow> byte list" where
  "SubBytes state =
     fold (\<lambda>i. fold (\<lambda>j s. s[j * 4 + i := getSBoxValue (s ! (j * 4 + i))]) [0..<4]) [0..<4] state"

definition ShiftRows :: "byte list \<Rightarrow> byte list" where
  "ShiftRows state =
     (let temp = state ! (0 * 4 + 1);
          s = state[0 * 4 + 1 := state ! (1 * 4 + 1)];
          s = s[1 * 4 + 1 := s ! (2 * 4 + 1)];
          s = s[2 * 4 + 1 := s ! (3 * 4 + 1)];
          s = s[3 * 4 + 1 := temp];
          temp = s ! (0 * 4 + 2);
          s = s[0 * 4 + 2 := s ! (2 * 4 + 2)];
          s = s[2 * 4 + 2 := temp];
          temp = s ! (1 * 4 + 2);
          s = s[1 * 4 + 2 := s ! (3 * 4 + 2)];
          s = s[3 * 4 + 2 := temp];
          temp = s ! (0 * 4 + 3);
          s = s[0 * 4 + 3 := s ! (3 * 4 + 3)];
          s = s[3 * 4 + 3 := s ! (2 * 4 + 3)];
          s = s[2 * 4 + 3 := s ! (1 * 4 + 3)];
          s = s[1 * 4 + 3 := temp]
      in s)"

definition xtime :: "byte \<Rightarrow> byte" where
  "xtime x = (push_bit 1 x) XOR (((drop_bit 7 x) AND 1) * 0x1b)"

definition MixColumn :: "nat \<Rightarrow> byte list \<Rightarrow> byte list" where
  "MixColumn i state =
     (let t = state ! (i * 4 + 0);
          Tmp = (state ! (i * 4 + 0)) XOR (state ! (i * 4 + 1)) XOR (state ! (i * 4 + 2)) XOR (state ! (i * 4 + 3));
          Tm = (state ! (i * 4 + 0)) XOR (state ! (i * 4 + 1));
          Tm = xtime Tm;
          s = state[i * 4 + 0 := (state ! (i * 4 + 0)) XOR (Tm XOR Tmp)];
          Tm = (s ! (i * 4 + 1)) XOR (s ! (i * 4 + 2));
          Tm = xtime Tm;
          s = s[i * 4 + 1 := (s ! (i * 4 + 1)) XOR (Tm XOR Tmp)];
          Tm = (s ! (i * 4 + 2)) XOR (s ! (i * 4 + 3));
          Tm = xtime Tm;
          s = s[i * 4 + 2 := (s ! (i * 4 + 2)) XOR (Tm XOR Tmp)];
          Tm = (s ! (i * 4 + 3)) XOR t;
          Tm = xtime Tm;
          s = s[i * 4 + 3 := (s ! (i * 4 + 3)) XOR (Tm XOR Tmp)]
      in s)"

definition MixColumns :: "byte list \<Rightarrow> byte list" where
  "MixColumns state = fold MixColumn [0..<4] state"

text \<open>
  The round loop of \<^verbatim>\<open>Cipher\<close> (the portable path): \<^verbatim>\<open>for (round = 1; ; ++round)\<close>
  with \<^verbatim>\<open>uint8_t round\<close>, left by the \<^verbatim>\<open>break\<close> when \<open>round = Nr\<close>.
\<close>

function Cipher_rounds :: "config \<Rightarrow> byte \<Rightarrow> byte list \<Rightarrow> byte list \<Rightarrow> byte list" where
  "Cipher_rounds cfg round state RoundKey =
     (let s = ShiftRows (SubBytes state)
      in if unat round = Nr cfg then s
         else Cipher_rounds cfg (round + 1) (AddRoundKey (unat round) (MixColumns s) RoundKey) RoundKey)"
  by pat_completeness auto

termination Cipher_rounds
proof (relation "measure (\<lambda>(cfg, round, state, RoundKey). unat (of_nat (Nr cfg) - round :: byte))")
  show "wf (measure (\<lambda>(cfg, round, state, RoundKey). unat (of_nat (Nr cfg) - round :: byte)))"
    by simp
next
  fix cfg :: config and round :: byte and state RoundKey s :: "byte list"
  assume "unat round \<noteq> Nr cfg"
  define d :: byte where "d = of_nat (Nr cfg) - round"
  have "Nr cfg < 256"
    by (simp add: Nr_def)
  then have "unat (of_nat (Nr cfg) :: byte) = Nr cfg"
    by (simp add: unat_of_nat)
  then have "of_nat (Nr cfg) \<noteq> round"
    using \<open>unat round \<noteq> Nr cfg\<close> by auto
  then have "d \<noteq> 0"
    by (simp add: d_def)
  then have l: "unat (d - 1) < unat d"
    by (simp add: unat_minus_one unat_gt_0)
  have e: "of_nat (Nr cfg) - (round + 1) = d - 1"
    by (simp add: d_def diff_diff_eq add.commute)
  have "unat (of_nat (Nr cfg) - (round + 1)) < unat (of_nat (Nr cfg) - round)"
    using l unfolding e d_def [symmetric] .
  then show "((cfg, round + 1, AddRoundKey (unat round) (MixColumns s) RoundKey, RoundKey),
              (cfg, round, state, RoundKey))
             \<in> measure (\<lambda>(cfg, round, state, RoundKey). unat (of_nat (Nr cfg) - round :: byte))"
    by simp
qed

declare Cipher_rounds.simps [simp del]

definition Cipher :: "config \<Rightarrow> byte list \<Rightarrow> byte list \<Rightarrow> byte list" where
  "Cipher cfg state RoundKey =
     (let s = AddRoundKey 0 state RoundKey;
          s = Cipher_rounds cfg 1 s RoundKey
      in AddRoundKey (Nr cfg) s RoundKey)"

section \<open>GHASH\<close>

text \<open>
  \<^verbatim>\<open>ghash_gmul(x, y, res)\<close> takes three pointers and \<^verbatim>\<open>ghash_update\<close> calls it as
  \<^verbatim>\<open>ghash_gmul(S, H, S)\<close>, so what it computes depends on which pointers are equal. The
  arrays therefore live in a store, a function from the name of an array to its bytes,
  and a pointer to an array is its name.
\<close>

type_synonym 'a mem = "'a \<Rightarrow> byte list"

definition GCM_POLYNOMIAL :: byte where
  "GCM_POLYNOMIAL = 0xE1"

text \<open>\<^verbatim>\<open>for (k = 0; k < 16; ++k) dst[k] ^= src[k];\<close> with \<open>src\<close> not in the store.\<close>

definition xor_loop :: "'a \<Rightarrow> (nat \<Rightarrow> byte) \<Rightarrow> 'a mem \<Rightarrow> 'a mem" where
  "xor_loop dst src m = fold (\<lambda>k m. m(dst := (m dst)[k := (m dst ! k) XOR src k])) [0..<16] m"

text \<open>
  The shift of the local \<open>V\<close> by one bit, \<open>k\<close> from 15 down to 0: byte \<open>k\<close> is shifted, then
  takes the low bit of byte \<open>k - 1\<close>, which is not yet shifted.
\<close>

definition shift_right_V :: "byte list \<Rightarrow> byte list" where
  "shift_right_V V =
     fold (\<lambda>k V. let V1 = V[k := drop_bit 1 (V ! k)]
                 in if k > 0 then (if (V1 ! (k - 1)) AND 1 \<noteq> 0 then V1[k := (V1 ! k) OR 0x80] else V1)
                    else V1)
          (rev [0..<16]) V"

text \<open>The body of the two nested loops, for bit \<open>j\<close> of byte \<open>i\<close> of \<open>x\<close>.\<close>

definition gmul_bit :: "'a \<Rightarrow> 'a \<Rightarrow> nat \<Rightarrow> nat \<Rightarrow> 'a mem \<times> byte list \<Rightarrow> 'a mem \<times> byte list" where
  "gmul_bit x res i j = (\<lambda>(m, V).
     let m1 = (if (drop_bit (7 - j) (m x ! i)) AND 1 \<noteq> 0 then xor_loop res (\<lambda>k. V ! k) m else m);
         lsb_set = (V ! 15) AND 1;
         V1 = shift_right_V V;
         V2 = (if lsb_set \<noteq> 0 then V1[0 := (V1 ! 0) XOR GCM_POLYNOMIAL] else V1)
     in (m1, V2))"

text \<open>
  The portable path of \<^verbatim>\<open>ghash_gmul\<close>: \<^verbatim>\<open>memset(res, 0, 16)\<close>, \<^verbatim>\<open>memcpy(V, y, 16)\<close>,
  then the 128 passes. \<open>x\<close> is read from the store in every pass.
\<close>

definition ghash_gmul :: "'a \<Rightarrow> 'a \<Rightarrow> 'a \<Rightarrow> 'a mem \<Rightarrow> 'a mem" where
  "ghash_gmul x y res m =
     (let m0 = m(res := replicate 16 0 @ drop 16 (m res));
          V = take 16 (m0 y)
      in fst (fold (\<lambda>i. fold (\<lambda>j. gmul_bit x res i j) [0..<8]) [0..<16] (m0, V)))"

text \<open>
  The first loop of \<^verbatim>\<open>ghash_update\<close>, over the whole blocks of \<open>data\<close>; it returns the
  index it stopped at with the store. \<open>data\<close> is an array the function only reads, passed
  by value.
\<close>

function ghash_blocks :: "'a \<Rightarrow> 'a \<Rightarrow> byte list \<Rightarrow> nat \<Rightarrow> nat \<Rightarrow> 'a mem \<Rightarrow> nat \<times> 'a mem" where
  "ghash_blocks S H data len i m =
     (if i + AES_BLOCKLEN \<le> len
      then ghash_blocks S H data len (i + AES_BLOCKLEN)
             (ghash_gmul S H S (xor_loop S (\<lambda>k. data ! (i + k)) m))
      else (i, m))"
  by pat_completeness auto

termination ghash_blocks
  by (relation "measure (\<lambda>(S, H, data, len, i, m). len - i)") (auto simp: AES_BLOCKLEN_def)

declare ghash_blocks.simps [simp del]

definition ghash_update :: "'a \<Rightarrow> 'a \<Rightarrow> byte list \<Rightarrow> nat \<Rightarrow> 'a mem \<Rightarrow> 'a mem" where
  "ghash_update S H data len m =
     (let (i, m1) = ghash_blocks S H data len 0 m
      in if i < len then
           (let remaining = len - i;
                block = take remaining (drop i data) @ replicate (AES_BLOCKLEN - remaining) 0;
                m2 = xor_loop S (\<lambda>k. block ! k) m1
            in ghash_gmul S H S m2)
         else m1)"

section \<open>Counter, length encoding, comparison\<close>

text \<open>
  \<^verbatim>\<open>for (i = 15; i >= 12; --i) if (++counter[i] != 0) break;\<close> The same loop stands in
  \<^verbatim>\<open>increment_counter_j0\<close> and, with \<open>bi\<close> as its variable, in \<^verbatim>\<open>AES_CTR_xcrypt_buffer\<close>.
\<close>

function increment_loop :: "nat \<Rightarrow> byte list \<Rightarrow> byte list" where
  "increment_loop i counter =
     (if i \<ge> AES_BLOCKLEN - 4 then
        (let c = counter[i := (counter ! i) + 1]
         in if c ! i \<noteq> 0 then c else increment_loop (i - 1) c)
      else counter)"
  by pat_completeness auto

termination increment_loop
  by (relation "measure (\<lambda>(i, counter). i)") (auto simp: AES_BLOCKLEN_def)

declare increment_loop.simps [simp del]

definition increment_counter_j0 :: "byte list \<Rightarrow> byte list" where
  "increment_counter_j0 counter = increment_loop (AES_BLOCKLEN - 1) counter"

text \<open>
  \<^verbatim>\<open>encode_length(len_bits, block)\<close> stores eight bytes at \<open>block[8]\<close> to \<open>block[15]\<close>.
  \<open>block\<close> is a pointer into an array of the store: the array's name with an offset.
  \<open>encode_length\<close> gives the arrays of the store after the call in the run in which the
  bytes that follow the array in memory belong to no object that is used again: a store
  at an index of the array changes that byte, a store past the end of the array changes
  no array of the store. The second case is undefined in C, and \<open>encode_length_checked\<close>
  below is the call under the C semantics.
\<close>

definition store_byte :: "'a \<Rightarrow> nat \<Rightarrow> byte \<Rightarrow> 'a mem \<Rightarrow> 'a mem" where
  "store_byte a i v m = m(a := (m a)[i := v])"

definition encode_length :: "64 word \<Rightarrow> 'a \<Rightarrow> nat \<Rightarrow> 'a mem \<Rightarrow> 'a mem" where
  "encode_length len_bits block off m =
     (let m = store_byte block (off + 8) (ucast (drop_bit 56 len_bits)) m;
          m = store_byte block (off + 9) (ucast (drop_bit 48 len_bits)) m;
          m = store_byte block (off + 10) (ucast (drop_bit 40 len_bits)) m;
          m = store_byte block (off + 11) (ucast (drop_bit 32 len_bits)) m;
          m = store_byte block (off + 12) (ucast (drop_bit 24 len_bits)) m;
          m = store_byte block (off + 13) (ucast (drop_bit 16 len_bits)) m;
          m = store_byte block (off + 14) (ucast (drop_bit 8 len_bits)) m;
          m = store_byte block (off + 15) (ucast len_bits) m
      in m)"

text \<open>
  The call is defined when \<open>block[8]\<close> to \<open>block[15]\<close>, the indices \<open>off + 8\<close> to
  \<open>off + 15\<close> of the array, lie inside the array; otherwise it has no result.
\<close>

definition encode_length_checked :: "64 word \<Rightarrow> 'a \<Rightarrow> nat \<Rightarrow> 'a mem \<Rightarrow> 'a mem option" where
  "encode_length_checked len_bits block off m =
     (if off + 15 < length (m block) then Some (encode_length len_bits block off m) else None)"

definition constant_time_memcmp :: "byte list \<Rightarrow> byte list \<Rightarrow> nat \<Rightarrow> int" where
  "constant_time_memcmp a b num =
     (let result = fold (\<lambda>i result. result OR ((a ! i) XOR (b ! i))) [0..<num] (0 :: byte)
      in if result \<noteq> 0 then 1 else 0)"

text \<open>\<^verbatim>\<open>memcpy(dst, src, n)\<close> and \<^verbatim>\<open>memset(dst, 0, n)\<close> on buffers that hold \<open>n\<close> bytes.\<close>

definition memcpy :: "byte list \<Rightarrow> byte list \<Rightarrow> nat \<Rightarrow> byte list" where
  "memcpy dst src n = take n src @ drop n dst"

definition memset0 :: "byte list \<Rightarrow> nat \<Rightarrow> byte list" where
  "memset0 dst n = replicate n 0 @ drop n dst"

section \<open>Context\<close>

text \<open>\<^verbatim>\<open>struct AES_ctx\<close>: the schedule and an IV field that the GCM functions never use.\<close>

record AES_ctx =
  RoundKey :: "byte list"
  Iv :: "byte list"

definition AES_init_ctx :: "config \<Rightarrow> AES_ctx \<Rightarrow> byte list \<Rightarrow> AES_ctx option" where
  "AES_init_ctx cfg ctx key =
     (case KeyExpansion cfg (RoundKey ctx) key of
        None \<Rightarrow> None
      | Some rk \<Rightarrow> Some (ctx\<lparr>RoundKey := rk\<rparr>))"

section \<open>Counter mode\<close>

text \<open>
  One pass of the loop of \<^verbatim>\<open>AES_CTR_xcrypt_buffer\<close> over byte \<open>i\<close>. When \<open>bi\<close> is 16 the
  code encrypts \<open>buffer\<close> in place, increments the counter block, copies the counter
  block into \<open>buffer\<close> (line 605) and sets \<open>bi\<close> to 0; then it XORs \<open>buffer[bi]\<close> into
  \<open>buf[i]\<close>, and the loop header increments \<open>bi\<close>.
\<close>

definition ctr_byte ::
  "config \<Rightarrow> AES_ctx \<Rightarrow> nat \<Rightarrow> byte list \<times> nat \<times> byte list \<times> byte list
     \<Rightarrow> byte list \<times> nat \<times> byte list \<times> byte list" where
  "ctr_byte cfg ctx i = (\<lambda>(buffer, bi, current_counter_block, buf).
     let (buffer, bi, current_counter_block) =
           (if bi = AES_BLOCKLEN then
              (let buffer = Cipher cfg buffer (RoundKey ctx);
                   current_counter_block = increment_loop (AES_BLOCKLEN - 1) current_counter_block;
                   buffer = memcpy buffer current_counter_block AES_BLOCKLEN
               in (buffer, 0, current_counter_block))
            else (buffer, bi, current_counter_block))
     in (buffer, bi + 1, current_counter_block, buf[i := (buf ! i) XOR (buffer ! bi)]))"

text \<open>
  The result is the counter block and the buffer as the call leaves them; \<open>len\<close> is the
  parameter \<^verbatim>\<open>length\<close>.
\<close>

definition AES_CTR_xcrypt_buffer ::
  "config \<Rightarrow> AES_ctx \<Rightarrow> byte list \<Rightarrow> byte list \<Rightarrow> nat \<Rightarrow> byte list \<times> byte list" where
  "AES_CTR_xcrypt_buffer cfg ctx current_counter_block buf len =
     (let buffer = memcpy (replicate 16 0) current_counter_block AES_BLOCKLEN;
          (buffer, bi, current_counter_block, buf) =
            fold (ctr_byte cfg ctx) [0..<len] (buffer, AES_BLOCKLEN, current_counter_block, buf)
      in (current_counter_block, buf))"

section \<open>GCM\<close>

text \<open>The local arrays of \<^verbatim>\<open>AES_GCM_encrypt\<close> and \<^verbatim>\<open>AES_GCM_decrypt\<close> that are passed by pointer.\<close>

datatype local = H | J0 | GCM_S | EK0 | len_block | final_len_block

text \<open>
  Lines 813 to 829 (and 885 to 901, the same text): the initial counter block. For a
  12-byte IV it is the IV, three zero bytes and a byte 1. Otherwise \<open>len_block\<close> is
  zeroed, \<^verbatim>\<open>encode_length(iv_len_bits, len_block + 8)\<close> is called, and the IV and
  \<open>len_block\<close> are absorbed into the zeroed \<open>GCM_S\<close>, which is copied to \<open>J0\<close> and zeroed.
\<close>

definition gcm_J0 :: "byte list \<Rightarrow> nat \<Rightarrow> local mem \<Rightarrow> local mem" where
  "gcm_J0 iv iv_len m =
     (if iv_len = AES_GCM_IV_LEN then
        (let j = memcpy (m J0) iv iv_len;
             j = take iv_len j @ memset0 (drop iv_len j) (AES_BLOCKLEN - iv_len - 1);
             j = j[AES_BLOCKLEN - 1 := 1]
         in m(J0 := j))
      else
        (let m = m(len_block := replicate 16 0);
             iv_len_bits = (of_nat iv_len :: 64 word) * 8;
             m = encode_length iv_len_bits len_block 8 m;
             m = m(GCM_S := memset0 (m GCM_S) 16);
             m = ghash_update GCM_S H iv iv_len m;
             m = ghash_update GCM_S H (m len_block) 16 m;
             m = m(J0 := memcpy (m J0) (m GCM_S) 16);
             m = m(GCM_S := memset0 (m GCM_S) 16)
         in m))"

text \<open>
  Lines 849 to 853 (and 913 to 916): \<open>final_len_block\<close> is zeroed, then
  \<^verbatim>\<open>encode_length(aad_len * 8, final_len_block)\<close> and
  \<^verbatim>\<open>encode_length(text_len * 8, final_len_block + 8)\<close>.
\<close>

definition gcm_final_len_block :: "nat \<Rightarrow> nat \<Rightarrow> local mem \<Rightarrow> local mem" where
  "gcm_final_len_block aad_len text_len m =
     (let m = m(final_len_block := replicate 16 0);
          m = encode_length ((of_nat aad_len :: 64 word) * 8) final_len_block 0 m;
          m = encode_length ((of_nat text_len :: 64 word) * 8) final_len_block 8 m
      in m)"

text \<open>
  The stack frame on entry: \<open>H\<close> and \<open>GCM_S\<close> are initialised to zero by their
  declarations. The other arrays are not initialised in C; each is written in full
  before it is read, and the model starts them at zero.
\<close>

definition frame0 :: "local mem" where
  "frame0 = (\<lambda>a. replicate 16 0)"

text \<open>
  A pointer argument is an optional buffer, \<open>None\<close> for \<^verbatim>\<open>NULL\<close>. \<open>readable p n\<close>: the
  code may access \<open>n\<close> bytes at \<open>p\<close>. A call that accesses bytes a buffer does not have
  (or dereferences \<^verbatim>\<open>NULL\<close>) has no defined behaviour: its result is \<open>None\<close>.
\<close>

definition readable :: "byte list option \<Rightarrow> nat \<Rightarrow> bool" where
  "readable p n = (case p of None \<Rightarrow> n = 0 | Some b \<Rightarrow> n \<le> length b)"

definition bytes :: "byte list option \<Rightarrow> byte list" where
  "bytes p = (case p of None \<Rightarrow> [] | Some b \<Rightarrow> b)"

text \<open>
  \<^verbatim>\<open>AES_GCM_encrypt\<close>. The result is the return value with the \<open>ct\<close> and \<open>tag\<close> buffers
  as the call leaves them.
\<close>

definition AES_GCM_encrypt ::
  "config \<Rightarrow> AES_ctx \<Rightarrow> byte list option \<Rightarrow> nat \<Rightarrow> byte list option \<Rightarrow> nat
     \<Rightarrow> byte list option \<Rightarrow> byte list option \<Rightarrow> nat \<Rightarrow> byte list option
     \<Rightarrow> (int \<times> byte list option \<times> byte list option) option" where
  "AES_GCM_encrypt cfg ctx iv iv_len aad aad_len pt ct pt_len tag =
     (if iv_len = 0 \<or> (aad = None \<and> aad_len > 0) \<or> (pt = None \<and> pt_len > 0) \<or> ct = None \<or> tag = None
      then Some (- 1, ct, tag)
      else if readable iv iv_len \<and> iv \<noteq> None \<and> readable aad aad_len \<and> readable pt pt_len
              \<and> readable ct pt_len \<and> readable tag AES_GCM_TAG_LEN
      then
        (let m = frame0;
             m = m(H := Cipher cfg (m H) (RoundKey ctx));
             m = gcm_J0 (bytes iv) iv_len m;
             m = m(EK0 := memcpy (m EK0) (m J0) AES_BLOCKLEN);
             m = m(EK0 := Cipher cfg (m EK0) (RoundKey ctx));
             m = ghash_update GCM_S H (bytes aad) aad_len m;
             current_counter = memcpy (replicate 16 0) (m J0) AES_BLOCKLEN;
             current_counter = increment_counter_j0 current_counter;
             (current_counter, ct1) =
               (if pt_len > 0
                then AES_CTR_xcrypt_buffer cfg ctx current_counter (memcpy (bytes ct) (bytes pt) pt_len) pt_len
                else (current_counter, bytes ct));
             m = ghash_update GCM_S H ct1 pt_len m;
             m = gcm_final_len_block aad_len pt_len m;
             m = ghash_update GCM_S H (m final_len_block) 16 m;
             tag1 = fold (\<lambda>i t. t[i := (m GCM_S ! i) XOR (m EK0 ! i)]) [0..<AES_GCM_TAG_LEN] (bytes tag)
         in Some (0, Some ct1, Some tag1))
      else None)"

text \<open>
  \<^verbatim>\<open>AES_GCM_decrypt\<close>. The result is the return value with the \<open>pt\<close> buffer as the call
  leaves it.
\<close>

definition AES_GCM_decrypt ::
  "config \<Rightarrow> AES_ctx \<Rightarrow> byte list option \<Rightarrow> nat \<Rightarrow> byte list option \<Rightarrow> nat
     \<Rightarrow> byte list option \<Rightarrow> byte list option \<Rightarrow> nat \<Rightarrow> byte list option
     \<Rightarrow> (int \<times> byte list option) option" where
  "AES_GCM_decrypt cfg ctx iv iv_len aad aad_len ct pt ct_len tag =
     (if iv_len = 0 \<or> (aad = None \<and> aad_len > 0) \<or> (ct = None \<and> ct_len > 0) \<or> pt = None \<or> tag = None
      then Some (- 1, pt)
      else if readable iv iv_len \<and> iv \<noteq> None \<and> readable aad aad_len \<and> readable ct ct_len
              \<and> readable pt ct_len \<and> readable tag AES_GCM_TAG_LEN
      then
        (let m = frame0;
             m = m(H := Cipher cfg (m H) (RoundKey ctx));
             m = gcm_J0 (bytes iv) iv_len m;
             m = m(EK0 := memcpy (m EK0) (m J0) AES_BLOCKLEN);
             m = m(EK0 := Cipher cfg (m EK0) (RoundKey ctx));
             m = ghash_update GCM_S H (bytes aad) aad_len m;
             m = ghash_update GCM_S H (bytes ct) ct_len m;
             m = gcm_final_len_block aad_len ct_len m;
             m = ghash_update GCM_S H (m final_len_block) 16 m;
             calculated_tag = fold (\<lambda>i t. t[i := (m GCM_S ! i) XOR (m EK0 ! i)]) [0..<AES_GCM_TAG_LEN]
                                (replicate AES_GCM_TAG_LEN 0)
         in if constant_time_memcmp calculated_tag (bytes tag) AES_GCM_TAG_LEN \<noteq> 0
            then Some (- 3, Some (memset0 (bytes pt) ct_len))
            else
              (let current_counter = memcpy (replicate 16 0) (m J0) AES_BLOCKLEN;
                   current_counter = increment_counter_j0 current_counter;
                   (current_counter, pt1) =
                     (if ct_len > 0
                      then AES_CTR_xcrypt_buffer cfg ctx current_counter (memcpy (bytes pt) (bytes ct) ct_len) ct_len
                      else (current_counter, bytes pt))
               in Some (0, Some pt1)))
      else None)"

definition InvalidArgument :: int where
  "InvalidArgument = - 1"

definition AuthenticationFailed :: int where
  "AuthenticationFailed = - 3"

section \<open>GCM under the C semantics\<close>

text \<open>
  The same four texts with every call of \<^verbatim>\<open>encode_length\<close> checked: a call that stores
  past the end of its array ends the run without a result, as a read past the end of
  \<open>Rcon\<close> and an access through \<^verbatim>\<open>NULL\<close> do.
\<close>

text \<open>Lines 813 to 829 and 885 to 901.\<close>

definition gcm_J0_checked :: "byte list \<Rightarrow> nat \<Rightarrow> local mem \<Rightarrow> local mem option" where
  "gcm_J0_checked iv iv_len m =
     (if iv_len = AES_GCM_IV_LEN then
        (let j = memcpy (m J0) iv iv_len;
             j = take iv_len j @ memset0 (drop iv_len j) (AES_BLOCKLEN - iv_len - 1);
             j = j[AES_BLOCKLEN - 1 := 1]
         in Some (m(J0 := j)))
      else
        (let m = m(len_block := replicate 16 0);
             iv_len_bits = (of_nat iv_len :: 64 word) * 8
         in case encode_length_checked iv_len_bits len_block 8 m of
              None \<Rightarrow> None
            | Some m \<Rightarrow>
                (let m = m(GCM_S := memset0 (m GCM_S) 16);
                     m = ghash_update GCM_S H iv iv_len m;
                     m = ghash_update GCM_S H (m len_block) 16 m;
                     m = m(J0 := memcpy (m J0) (m GCM_S) 16);
                     m = m(GCM_S := memset0 (m GCM_S) 16)
                 in Some m)))"

text \<open>Lines 850 to 852 and 913 to 915.\<close>

definition gcm_final_len_block_checked :: "nat \<Rightarrow> nat \<Rightarrow> local mem \<Rightarrow> local mem option" where
  "gcm_final_len_block_checked aad_len text_len m =
     (let m = m(final_len_block := replicate 16 0)
      in case encode_length_checked ((of_nat aad_len :: 64 word) * 8) final_len_block 0 m of
           None \<Rightarrow> None
         | Some m \<Rightarrow> encode_length_checked ((of_nat text_len :: 64 word) * 8) final_len_block 8 m)"

text \<open>\<^verbatim>\<open>AES_GCM_encrypt\<close>, lines 792 to 861.\<close>

definition AES_GCM_encrypt_checked ::
  "config \<Rightarrow> AES_ctx \<Rightarrow> byte list option \<Rightarrow> nat \<Rightarrow> byte list option \<Rightarrow> nat
     \<Rightarrow> byte list option \<Rightarrow> byte list option \<Rightarrow> nat \<Rightarrow> byte list option
     \<Rightarrow> (int \<times> byte list option \<times> byte list option) option" where
  "AES_GCM_encrypt_checked cfg ctx iv iv_len aad aad_len pt ct pt_len tag =
     (if iv_len = 0 \<or> (aad = None \<and> aad_len > 0) \<or> (pt = None \<and> pt_len > 0) \<or> ct = None \<or> tag = None
      then Some (- 1, ct, tag)
      else if readable iv iv_len \<and> iv \<noteq> None \<and> readable aad aad_len \<and> readable pt pt_len
              \<and> readable ct pt_len \<and> readable tag AES_GCM_TAG_LEN
      then
        (let m = frame0;
             m = m(H := Cipher cfg (m H) (RoundKey ctx))
         in case gcm_J0_checked (bytes iv) iv_len m of
              None \<Rightarrow> None
            | Some m \<Rightarrow>
                (let m = m(EK0 := memcpy (m EK0) (m J0) AES_BLOCKLEN);
                     m = m(EK0 := Cipher cfg (m EK0) (RoundKey ctx));
                     m = ghash_update GCM_S H (bytes aad) aad_len m;
                     current_counter = memcpy (replicate 16 0) (m J0) AES_BLOCKLEN;
                     current_counter = increment_counter_j0 current_counter;
                     (current_counter, ct1) =
                       (if pt_len > 0
                        then AES_CTR_xcrypt_buffer cfg ctx current_counter (memcpy (bytes ct) (bytes pt) pt_len) pt_len
                        else (current_counter, bytes ct));
                     m = ghash_update GCM_S H ct1 pt_len m
                 in case gcm_final_len_block_checked aad_len pt_len m of
                      None \<Rightarrow> None
                    | Some m \<Rightarrow>
                        (let m = ghash_update GCM_S H (m final_len_block) 16 m;
                             tag1 = fold (\<lambda>i t. t[i := (m GCM_S ! i) XOR (m EK0 ! i)]) [0..<AES_GCM_TAG_LEN]
                                      (bytes tag)
                         in Some (0, Some ct1, Some tag1))))
      else None)"

text \<open>\<^verbatim>\<open>AES_GCM_decrypt\<close>, lines 863 to 939.\<close>

definition AES_GCM_decrypt_checked ::
  "config \<Rightarrow> AES_ctx \<Rightarrow> byte list option \<Rightarrow> nat \<Rightarrow> byte list option \<Rightarrow> nat
     \<Rightarrow> byte list option \<Rightarrow> byte list option \<Rightarrow> nat \<Rightarrow> byte list option
     \<Rightarrow> (int \<times> byte list option) option" where
  "AES_GCM_decrypt_checked cfg ctx iv iv_len aad aad_len ct pt ct_len tag =
     (if iv_len = 0 \<or> (aad = None \<and> aad_len > 0) \<or> (ct = None \<and> ct_len > 0) \<or> pt = None \<or> tag = None
      then Some (- 1, pt)
      else if readable iv iv_len \<and> iv \<noteq> None \<and> readable aad aad_len \<and> readable ct ct_len
              \<and> readable pt ct_len \<and> readable tag AES_GCM_TAG_LEN
      then
        (let m = frame0;
             m = m(H := Cipher cfg (m H) (RoundKey ctx))
         in case gcm_J0_checked (bytes iv) iv_len m of
              None \<Rightarrow> None
            | Some m \<Rightarrow>
                (let m = m(EK0 := memcpy (m EK0) (m J0) AES_BLOCKLEN);
                     m = m(EK0 := Cipher cfg (m EK0) (RoundKey ctx));
                     m = ghash_update GCM_S H (bytes aad) aad_len m;
                     m = ghash_update GCM_S H (bytes ct) ct_len m
                 in case gcm_final_len_block_checked aad_len ct_len m of
                      None \<Rightarrow> None
                    | Some m \<Rightarrow>
                        (let m = ghash_update GCM_S H (m final_len_block) 16 m;
                             calculated_tag =
                               fold (\<lambda>i t. t[i := (m GCM_S ! i) XOR (m EK0 ! i)]) [0..<AES_GCM_TAG_LEN]
                                 (replicate AES_GCM_TAG_LEN 0)
                         in if constant_time_memcmp calculated_tag (bytes tag) AES_GCM_TAG_LEN \<noteq> 0
                            then Some (- 3, Some (memset0 (bytes pt) ct_len))
                            else
                              (let current_counter = memcpy (replicate 16 0) (m J0) AES_BLOCKLEN;
                                   current_counter = increment_counter_j0 current_counter;
                                   (current_counter, pt1) =
                                     (if ct_len > 0
                                      then AES_CTR_xcrypt_buffer cfg ctx current_counter
                                             (memcpy (bytes pt) (bytes ct) ct_len) ct_len
                                      else (current_counter, bytes pt))
                               in Some (0, Some pt1)))))
      else None)"

section \<open>Reference functions of the specification\<close>

text \<open>
  The definitions of this section follow the words of the specification, not the code;
  the code is compared with them. Each name ends in \<open>_spec\<close>.
\<close>

text \<open>\<open>S XOR B\<close> for two 16-byte blocks.\<close>

definition xor16_spec :: "byte list \<Rightarrow> byte list \<Rightarrow> byte list" where
  "xor16_spec a b = map (\<lambda>k. (a ! k) XOR (b ! k)) [0..<16]"

text \<open>
  Section 4.3, step 2: the shift of \<open>V\<close> right by one bit across the whole 128-bit
  register (byte \<open>k\<close> receives the carry from byte \<open>k - 1\<close>).
\<close>

definition shift_right_spec :: "byte list \<Rightarrow> byte list" where
  "shift_right_spec V =
     map (\<lambda>k. drop_bit 1 (V ! k) OR (if k = 0 then 0 else push_bit 7 ((V ! (k - 1)) AND 1))) [0..<16]"

definition GF_mul_bit_spec :: "byte list \<Rightarrow> nat \<Rightarrow> nat \<Rightarrow> byte list \<times> byte list \<Rightarrow> byte list \<times> byte list" where
  "GF_mul_bit_spec x i j = (\<lambda>(Z, V).
     let Z1 = (if bit (x ! i) (7 - j) then xor16_spec Z V else Z);
         lsb = (V ! 15) AND 1;
         V1 = shift_right_spec V;
         V2 = (if lsb = 1 then V1[0 := (V1 ! 0) XOR 0xE1] else V1)
     in (Z1, V2))"

text \<open>The bit-serial reference multiplication: \<open>Z = 0\<close>, \<open>V = y\<close>, 128 steps, the result is \<open>Z\<close>.\<close>

definition GF_mul_spec :: "byte list \<Rightarrow> byte list \<Rightarrow> byte list" where
  "GF_mul_spec x y =
     fst (fold (\<lambda>i. fold (\<lambda>j. GF_mul_bit_spec x i j) [0..<8]) [0..<16] (replicate 16 0, y))"

text \<open>
  Section 4.4: the data are split into 16-byte blocks, the last one zero-padded on the
  right, and each block \<open>B\<close> replaces \<open>S\<close> by \<open>GF_mul (S XOR B, H)\<close>.
\<close>

function blocks_spec :: "byte list \<Rightarrow> byte list list" where
  "blocks_spec D =
     (if D = [] then []
      else (take 16 D @ replicate (16 - length (take 16 D)) 0) # blocks_spec (drop 16 D))"
  by pat_completeness auto

termination blocks_spec
  by (relation "measure length") auto

declare blocks_spec.simps [simp del]

definition GHASH_update_spec :: "byte list \<Rightarrow> byte list \<Rightarrow> byte list \<Rightarrow> nat \<Rightarrow> byte list" where
  "GHASH_update_spec S h D L = fold (\<lambda>B S. GF_mul_spec (xor16_spec S B) h) (blocks_spec (take L D)) S"

text \<open>The big-endian encoding of a number in \<open>n\<close> bytes, and the number a byte string encodes.\<close>

definition be_bytes_spec :: "nat \<Rightarrow> nat \<Rightarrow> byte list" where
  "be_bytes_spec n v = map (\<lambda>k. of_nat (v div 256 ^ (n - 1 - k))) [0..<n]"

definition be_value_spec :: "byte list \<Rightarrow> nat" where
  "be_value_spec bs = foldl (\<lambda>a b. 256 * a + unat b) 0 bs"

text \<open>Section 4.6.2, step 5: the length block, both lengths in bits.\<close>

definition length_block_spec :: "nat \<Rightarrow> nat \<Rightarrow> byte list" where
  "length_block_spec aad_len text_len = be_bytes_spec 8 (8 * aad_len) @ be_bytes_spec 8 (8 * text_len)"

text \<open>
  Section 4.6.1 for an IV that is not 12 bytes long: the second block is 8 zero bytes and
  the IV length in bits, and \<open>J0\<close> is the zero accumulator after the IV and that block.
\<close>

definition iv_length_block_spec :: "nat \<Rightarrow> byte list" where
  "iv_length_block_spec iv_len = replicate 8 0 @ be_bytes_spec 8 (8 * iv_len)"

definition J0_spec :: "byte list \<Rightarrow> byte list \<Rightarrow> byte list" where
  "J0_spec h iv =
     GHASH_update_spec (GHASH_update_spec (replicate 16 0) h iv (length iv)) h
       (iv_length_block_spec (length iv)) 16"

text \<open>
  Section 4.5: block number \<open>k\<close> uses the counter block \<open>C + k\<close>, only the rightmost four
  bytes counting, big-endian, modulo \<open>2 ^ 32\<close>; byte \<open>i\<close> of the buffer is XORed with byte
  \<open>i mod 16\<close> of the encryption of the counter block of block \<open>i div 16\<close>.
\<close>

definition counter_block_spec :: "byte list \<Rightarrow> nat \<Rightarrow> byte list" where
  "counter_block_spec C k = take 12 C @ be_bytes_spec 4 ((be_value_spec (drop 12 C) + k) mod 2 ^ 32)"

definition CTR_spec :: "config \<Rightarrow> AES_ctx \<Rightarrow> byte list \<Rightarrow> byte list \<Rightarrow> nat \<Rightarrow> byte list" where
  "CTR_spec cfg ctx C B L =
     map (\<lambda>i. (B ! i) XOR (Cipher cfg (counter_block_spec C (i div 16)) (RoundKey ctx) ! (i mod 16))) [0..<L]
       @ drop L B"

text \<open>
  Section 7 and the table of section 6, as the claim words it: a call fails with
  \<open>InvalidArgument\<close> when the IV length is 0 or a pointer is null while its length is
  positive. The text buffers have the text length and the tag has 16 bytes.
\<close>

definition null_with_length :: "byte list option \<Rightarrow> nat \<Rightarrow> bool" where
  "null_with_length p n = (p = None \<and> 0 < n)"

definition invalid_argument_spec ::
  "byte list option \<Rightarrow> nat \<Rightarrow> byte list option \<Rightarrow> nat \<Rightarrow> byte list option \<Rightarrow> byte list option
     \<Rightarrow> nat \<Rightarrow> byte list option \<Rightarrow> bool" where
  "invalid_argument_spec iv iv_len aad aad_len src dst text_len tag =
     (iv_len = 0 \<or> null_with_length iv iv_len \<or> null_with_length aad aad_len
      \<or> null_with_length src text_len \<or> null_with_length dst text_len
      \<or> null_with_length tag AES_GCM_TAG_LEN)"

section \<open>Notions for the statements\<close>

text \<open>The store \<open>m\<close> with the first 16 bytes of the array \<open>a\<close> set to zero.\<close>

definition zero16 :: "'a \<Rightarrow> 'a mem \<Rightarrow> 'a mem" where
  "zero16 a m = m(a := replicate 16 0 @ drop 16 (m a))"

text \<open>
  The counter block after \<open>n\<close> increments, and what the loop of
  \<^verbatim>\<open>AES_CTR_xcrypt_buffer\<close> does to the first \<open>n\<close> bytes of a buffer: byte \<open>i\<close> is XORed
  with byte \<open>i mod 16\<close> of the counter block after \<open>i div 16 + 1\<close> increments.
\<close>

definition nth_counter :: "byte list \<Rightarrow> nat \<Rightarrow> byte list" where
  "nth_counter c n = (increment_counter_j0 ^^ n) c"

definition ctr_stream_byte :: "byte list \<Rightarrow> nat \<Rightarrow> byte" where
  "ctr_stream_byte c i = nth_counter c (i div 16 + 1) ! (i mod 16)"

definition ctr_applied :: "byte list \<Rightarrow> byte list \<Rightarrow> nat \<Rightarrow> byte list" where
  "ctr_applied c buf n = map (\<lambda>i. (buf ! i) XOR ctr_stream_byte c i) [0..<n] @ drop n buf"

definition ctr_after :: "byte list \<Rightarrow> byte list \<Rightarrow> nat \<Rightarrow> byte list \<times> nat \<times> byte list \<times> byte list" where
  "ctr_after c buf n =
     (nth_counter c (Suc (n div 16)), Suc (n mod 16), nth_counter c (Suc (n div 16)),
      ctr_applied c buf (Suc n))"

text \<open>
  What the two GCM functions compute: the initial counter block, the tag (the encryption
  of the initial counter block) and the text.
\<close>

definition gcm_J0_value :: "byte list \<Rightarrow> nat \<Rightarrow> byte list" where
  "gcm_J0_value iv iv_len = (if iv_len = 12 then take 12 iv @ [0, 0, 0, 1] else replicate 16 0)"

definition gcm_tag_value :: "config \<Rightarrow> AES_ctx \<Rightarrow> byte list \<Rightarrow> nat \<Rightarrow> byte list" where
  "gcm_tag_value cfg ctx iv iv_len = Cipher cfg (gcm_J0_value iv iv_len) (RoundKey ctx)"

definition gcm_text_value :: "byte list \<Rightarrow> nat \<Rightarrow> byte list \<Rightarrow> byte list \<Rightarrow> nat \<Rightarrow> byte list" where
  "gcm_text_value iv iv_len src dst n =
     ctr_applied (increment_counter_j0 (gcm_J0_value iv iv_len)) (memcpy dst src n) n"

text \<open>A context whose schedule is 368 zero bytes, and the inputs of the examples.\<close>

definition zero_ctx :: AES_ctx where
  "zero_ctx = \<lparr>RoundKey = replicate 368 0, Iv = replicate 16 0\<rparr>"

definition zero_iv :: "byte list" where
  "zero_iv = [0, 0, 0, 0, 0, 0, 0, 0, 0, 0, 0, 0]"

definition zero_block :: "byte list" where
  "zero_block = [0, 0, 0, 0, 0, 0, 0, 0, 0, 0, 0, 0, 0, 0, 0, 0]"

text \<open>
  Hash subkeys and inputs of two test cases of NIST SP 800-38D: \<open>nist_H\<close> is the
  encryption of the zero block under the zero AES-128 key and \<open>nist_C\<close> the ciphertext
  block of test case 2; \<open>nist_H5\<close> and \<open>nist_IV5\<close> are the hash subkey and the 8-byte IV
  of test case 5. \<open>key_0_63\<close> is the 64-byte key \<open>00 01 .. 3f\<close>.
\<close>

definition nist_H :: "byte list" where
  "nist_H = [0x66, 0xE9, 0x4B, 0xD4, 0xEF, 0x8A, 0x2C, 0x3B, 0x88, 0x4C, 0xFA, 0x59, 0xCA, 0x34, 0x2B, 0x2E]"

definition nist_H5 :: "byte list" where
  "nist_H5 = [0xB8, 0x3B, 0x53, 0x37, 0x08, 0xBF, 0x53, 0x5D, 0x0A, 0xA6, 0xE5, 0x29, 0x80, 0xD5, 0x3B, 0x78]"

definition nist_IV5 :: "byte list" where
  "nist_IV5 = [0xCA, 0xFE, 0xBA, 0xBE, 0xFA, 0xCE, 0xDB, 0xAD]"

definition one_block :: "byte list" where
  "one_block = [0, 0, 0, 0, 0, 0, 0, 0, 0, 0, 0, 0, 0, 0, 0, 1]"

definition nist_C :: "byte list" where
  "nist_C = [0x03, 0x88, 0xDA, 0xCE, 0x60, 0xB6, 0xA3, 0x92, 0xF3, 0x28, 0xC2, 0xB9, 0x71, 0xB2, 0xFE, 0x78]"

definition key_0_63 :: "byte list" where
  "key_0_63 = map of_nat [0..<64]"

section \<open>Lemmas\<close>


lemma upt4: "[0..<4] = [0,1,2,3]" by (simp add: upt_rec)
lemma upt8: "[0..<8] = [0,1,2,3,4,5,6,7]" by (simp add: upt_rec)
lemma upt16: "[0..<16] = [0,1,2,3,4,5,6,7,8,9,10,11,12,13,14,15]" by (simp add: upt_rec)
lemma rep16: "replicate 16 x = [x,x,x,x,x,x,x,x,x,x,x,x,x,x,x,x]" by (simp add: numeral_eq_Suc)

subsection \<open>The XOR loop\<close>

lemma xor_fold_other:
  "a \<noteq> dst \<Longrightarrow> fold (\<lambda>k m. m(dst := (m dst)[k := (m dst ! k) XOR src k])) ks m a = m a"
  by (induction ks arbitrary: m) auto

lemma xor_fold_drop:
  "\<forall>k \<in> set ks. k < n \<Longrightarrow>
   drop n (fold (\<lambda>k m. m(dst := (m dst)[k := (m dst ! k) XOR src k])) ks m dst) = drop n (m dst)"
  by (induction ks arbitrary: m) (auto simp: drop_update_cancel)

lemma xor_loop_other: "a \<noteq> dst \<Longrightarrow> xor_loop dst src m a = m a"
  by (simp add: xor_loop_def xor_fold_other)

lemma xor_loop_drop: "drop 16 (xor_loop dst src m dst) = drop 16 (m dst)"
  by (simp add: xor_loop_def xor_fold_drop)

subsection \<open>Multiplication with \<open>x\<close> and \<open>res\<close> the same array\<close>

lemma gmul_bit_aliased:
  assumes "i < 16" "take 16 (m x) = replicate 16 0"
  shows "fst (gmul_bit x x i j (m, V)) = m"
proof -
  have "m x ! i = take 16 (m x) ! i"
    using assms(1) by simp
  also have "\<dots> = 0"
    using assms by simp
  finally show ?thesis
    by (simp add: gmul_bit_def Let_def)
qed

lemma gmul_bits_aliased:
  assumes "i < 16" "take 16 (m x) = replicate 16 0"
  shows "fst (fold (\<lambda>j. gmul_bit x x i j) js (m, V)) = m"
proof (induction js arbitrary: V)
  case Nil
  show ?case by simp
next
  case (Cons j js)
  have "fst (gmul_bit x x i j (m, V)) = m"
    using assms by (rule gmul_bit_aliased)
  then obtain V' where "gmul_bit x x i j (m, V) = (m, V')"
    by (cases "gmul_bit x x i j (m, V)") auto
  then show ?case
    using Cons.IH [of V'] by simp
qed

lemma gmul_bytes_aliased:
  assumes "\<forall>i \<in> set is. i < 16" "take 16 (m x) = replicate 16 0"
  shows "fst (fold (\<lambda>i. fold (\<lambda>j. gmul_bit x x i j) js) is (m, V)) = m"
  using assms(1)
proof (induction "is" arbitrary: V)
  case Nil
  show ?case by simp
next
  case (Cons i "is")
  have "i < 16"
    using Cons.prems by simp
  then have "fst (fold (\<lambda>j. gmul_bit x x i j) js (m, V)) = m"
    using assms(2) by (rule gmul_bits_aliased)
  then obtain V' where "fold (\<lambda>j. gmul_bit x x i j) js (m, V) = (m, V')"
    by (cases "fold (\<lambda>j. gmul_bit x x i j) js (m, V)") auto
  then show ?case
    using Cons.IH [of V'] Cons.prems by simp
qed

lemma ghash_gmul_aliased: "ghash_gmul x y x m = zero16 x m"
proof -
  have "take 16 ((zero16 x m) x) = replicate 16 0"
    by (simp add: zero16_def)
  then show ?thesis
    using gmul_bytes_aliased [of "[0..<16]" "zero16 x m" x "[0..<8]"]
    by (simp add: ghash_gmul_def zero16_def Let_def)
qed

lemma zero16_xor_loop: "zero16 S (xor_loop S src m) = zero16 S m"
  by (rule ext) (simp add: zero16_def xor_loop_other xor_loop_drop)

lemma zero16_idem: "zero16 S (zero16 S m) = zero16 S m"
  by (rule ext) (simp add: zero16_def)

lemma ghash_blocks_aliased:
  "ghash_blocks s h data len i m =
     (i + 16 * ((len - i) div 16), if i + 16 \<le> len then zero16 s m else m)"
proof (induction s h data len i m rule: ghash_blocks.induct)
  case (1 s h data len i m)
  show ?case
  proof (cases "i + AES_BLOCKLEN \<le> len")
    case True
    then have le: "i + 16 \<le> len"
      by (simp add: AES_BLOCKLEN_def)
    then have "len - i = (len - (i + 16)) + 16"
      by simp
    then have d: "(len - i) div 16 = Suc ((len - (i + 16)) div 16)"
      by (simp only: div_add_self2)
    show ?thesis
      using True 1 [OF True] le d
      by (subst ghash_blocks.simps)
         (simp add: ghash_gmul_aliased zero16_xor_loop zero16_idem AES_BLOCKLEN_def)
  next
    case False
    then have "(len - i) div 16 = 0"
      by (simp add: AES_BLOCKLEN_def)
    then show ?thesis
      using False by (subst ghash_blocks.simps) (simp add: AES_BLOCKLEN_def)
  qed
qed

lemma ghash_update_aliased:
  "ghash_update s h data len m = (if len = 0 then m else zero16 s m)"
proof -
  have "\<not> 16 * (len div 16) < len \<Longrightarrow> len \<noteq> 0 \<Longrightarrow> 16 \<le> len"
    by (metis div_less mult_zero_right not_less not_gr_zero)
  then show ?thesis
    by (auto simp: ghash_update_def ghash_blocks_aliased ghash_gmul_aliased Let_def zero16_xor_loop zero16_idem)
qed

subsection \<open>Lengths\<close>

lemma length_AddRoundKey [simp]: "length (AddRoundKey r s rk) = length s"
  by (simp add: AddRoundKey_def upt4)

lemma length_SubBytes [simp]: "length (SubBytes s) = length s"
  by (simp add: SubBytes_def upt4)

lemma length_ShiftRows [simp]: "length (ShiftRows s) = length s"
  by (simp add: ShiftRows_def Let_def)

lemma length_MixColumns [simp]: "length (MixColumns s) = length s"
  by (simp add: MixColumns_def MixColumn_def Let_def upt4)

lemma length_Cipher_rounds [simp]: "length (Cipher_rounds cfg r s rk) = length s"
proof (induction cfg r s rk rule: Cipher_rounds.induct)
  case (1 cfg round state rk)
  show ?case
    using 1 by (subst Cipher_rounds.simps) (simp add: Let_def)
qed

lemma length_Cipher [simp]: "length (Cipher cfg s rk) = length s"
  by (simp add: Cipher_def Let_def)

lemma length_increment_loop [simp]: "length (increment_loop i c) = length c"
proof (induction i c rule: increment_loop.induct)
  case (1 i c)
  show ?case
    using 1 by (subst increment_loop.simps) (simp add: Let_def)
qed

lemma length_increment_counter_j0 [simp]: "length (increment_counter_j0 c) = length c"
  by (simp add: increment_counter_j0_def)

subsection \<open>Counter mode\<close>

lemma length_nth_counter [simp]: "length (nth_counter c n) = length c"
  by (induction n) (simp_all add: nth_counter_def)

lemma nth_counter_Suc: "increment_loop 15 (nth_counter c n) = nth_counter c (Suc n)"
  by (simp add: nth_counter_def increment_counter_j0_def AES_BLOCKLEN_def)

lemma ctr_applied_Suc:
  assumes "n < length buf"
  shows "(ctr_applied c buf n)[n := (ctr_applied c buf n ! n) XOR ctr_stream_byte c n] = ctr_applied c buf (Suc n)"
proof -
  have "drop n buf = buf ! n # drop (Suc n) buf"
    using assms by (simp add: Cons_nth_drop_Suc)
  then show ?thesis
    by (simp add: ctr_applied_def nth_append list_update_append)
qed




lemma ctr_byte_first:
  assumes "length c = 16" "0 < length buf"
  shows "ctr_byte cfg ctx 0 (c, 16, c, buf) = ctr_after c buf 0"
proof -
  have "nth_counter c (Suc 0) ! 0 = ctr_stream_byte c 0"
    by (simp add: ctr_stream_byte_def)
  moreover have "ctr_applied c buf 0 = buf"
    by (simp add: ctr_applied_def)
  ultimately have "buf[0 := (buf ! 0) XOR (nth_counter c (Suc 0) ! 0)] = ctr_applied c buf (Suc 0)"
    using ctr_applied_Suc [OF assms(2), of c] by simp
  moreover have "increment_loop 15 c = nth_counter c (Suc 0)"
    using nth_counter_Suc [of c 0] by (simp add: nth_counter_def)
  ultimately show ?thesis
    using assms(1) by (simp add: ctr_byte_def ctr_after_def AES_BLOCKLEN_def memcpy_def Let_def)
qed

lemma ctr_byte_next:
  assumes "length c = 16" "Suc n < length buf"
  shows "ctr_byte cfg ctx (Suc n) (ctr_after c buf n) = ctr_after c buf (Suc n)"
proof (cases "Suc (n mod 16) = 16")
  case True
  define C where "C = nth_counter c (Suc (n div 16))"
  define C' where "C' = nth_counter c (Suc (Suc (n div 16)))"
  have dm: "Suc n div 16 = Suc (n div 16)" "Suc n mod 16 = 0"
    using True by (simp_all add: div_Suc mod_Suc)
  have l: "length C' = 16" "length C = 16"
    using assms(1) by (simp_all add: C'_def C_def)
  have i: "increment_loop 15 C = C'"
    by (simp add: C_def C'_def nth_counter_Suc)
  have "C' ! 0 = ctr_stream_byte c (Suc n)"
    unfolding ctr_stream_byte_def dm C'_def by simp
  then have u: "(ctr_applied c buf (Suc n))[Suc n := (ctr_applied c buf (Suc n) ! Suc n) XOR (C' ! 0)]
                 = ctr_applied c buf (Suc (Suc n))"
    using ctr_applied_Suc [OF assms(2), of c] by simp
  have "ctr_byte cfg ctx (Suc n) (C, 16, C, ctr_applied c buf (Suc n))
          = (C', Suc 0, C', ctr_applied c buf (Suc (Suc n)))"
    using l i u by (simp add: ctr_byte_def AES_BLOCKLEN_def memcpy_def)
  then show ?thesis
    unfolding ctr_after_def dm True C_def C'_def by simp
next
  case False
  define C where "C = nth_counter c (Suc (n div 16))"
  have dm: "Suc n div 16 = n div 16" "Suc n mod 16 = Suc (n mod 16)"
    using False by (simp_all add: div_Suc mod_Suc)
  have "C ! Suc (n mod 16) = ctr_stream_byte c (Suc n)"
    unfolding ctr_stream_byte_def dm C_def by simp
  then have u: "(ctr_applied c buf (Suc n))[Suc n := (ctr_applied c buf (Suc n) ! Suc n) XOR (C ! Suc (n mod 16))]
                 = ctr_applied c buf (Suc (Suc n))"
    using ctr_applied_Suc [OF assms(2), of c] by simp
  have "ctr_byte cfg ctx (Suc n) (C, Suc (n mod 16), C, ctr_applied c buf (Suc n))
          = (C, Suc (Suc (n mod 16)), C, ctr_applied c buf (Suc (Suc n)))"
    using u False by (simp add: ctr_byte_def AES_BLOCKLEN_def)
  then show ?thesis
    unfolding ctr_after_def dm C_def by simp
qed

lemma ctr_fold_after:
  assumes "length c = 16"
  shows "Suc n \<le> length buf \<Longrightarrow>
         fold (ctr_byte cfg ctx) [0..<Suc n] (c, 16, c, buf) = ctr_after c buf n"
proof (induction n)
  case 0
  then have "0 < length buf"
    by (cases buf) simp_all
  then show ?case
    using ctr_byte_first [OF assms, of buf cfg ctx] by simp
next
  case (Suc n)
  have "fold (ctr_byte cfg ctx) [0..<Suc (Suc n)] (c, 16, c, buf)
          = ctr_byte cfg ctx (Suc n) (fold (ctr_byte cfg ctx) [0..<Suc n] (c, 16, c, buf))"
    by simp
  also have "\<dots> = ctr_byte cfg ctx (Suc n) (ctr_after c buf n)"
    using Suc by simp
  also have "\<dots> = ctr_after c buf (Suc n)"
    using Suc.prems by (intro ctr_byte_next assms) simp
  finally show ?case .
qed

lemma AES_CTR_xcrypt_buffer_eq:
  assumes "length c = 16" "len \<le> length buf"
  shows "snd (AES_CTR_xcrypt_buffer cfg ctx c buf len) = ctr_applied c buf len"
proof (cases len)
  case 0
  then show ?thesis
    by (simp add: AES_CTR_xcrypt_buffer_def ctr_applied_def)
next
  case (Suc n)
  then show ?thesis
    using assms ctr_fold_after [OF assms(1), of n buf cfg ctx]
    by (simp add: AES_CTR_xcrypt_buffer_def memcpy_def AES_BLOCKLEN_def ctr_after_def del: upt_Suc)
qed

lemma ctr_applied_twice:
  assumes "n \<le> length buf"
  shows "ctr_applied c (ctr_applied c buf n) n = buf"
proof (rule nth_equalityI)
  show "length (ctr_applied c (ctr_applied c buf n) n) = length buf"
    using assms by (simp add: ctr_applied_def)
next
  fix i
  assume "i < length (ctr_applied c (ctr_applied c buf n) n)"
  then have i: "i < length buf"
    using assms by (simp add: ctr_applied_def)
  show "ctr_applied c (ctr_applied c buf n) n ! i = buf ! i"
  proof (cases "i < n")
    case True
    then show ?thesis
      by (simp add: ctr_applied_def nth_append xor.assoc)
  next
    case False
    then show ?thesis
      using i assms by (simp add: ctr_applied_def nth_append)
  qed
qed



subsection \<open>The GCM functions\<close>


lemma length_gcm_J0_value: "12 \<le> length iv \<or> iv_len \<noteq> 12 \<Longrightarrow> length (gcm_J0_value iv iv_len) = 16"
  by (auto simp: gcm_J0_value_def)

lemma encode_length_beyond:
  "length (m a) \<le> off + 8 \<Longrightarrow> encode_length w a off m = m"
  by (rule ext) (simp add: encode_length_def store_byte_def Let_def list_update_beyond)

lemma zero16_id: "m a = replicate 16 0 \<Longrightarrow> zero16 a m = m"
  by (rule ext) (simp add: zero16_def)

lemma ghash_update_zero: "m s = replicate 16 0 \<Longrightarrow> ghash_update s h data len m = m"
  by (simp add: ghash_update_aliased zero16_id)

lemma gcm_J0_frame:
  assumes "12 \<le> length iv \<or> iv_len \<noteq> 12"
  shows "gcm_J0 iv iv_len (frame0(H := h)) = frame0(H := h, J0 := gcm_J0_value iv iv_len)"
proof (cases "iv_len = 12")
  case True
  then have l: "12 \<le> length iv"
    using assms by simp
  define j where "j = memcpy (frame0 J0) iv 12"
  have j: "j = take 12 iv @ replicate 4 0"
    by (simp add: j_def memcpy_def frame0_def)
  have "take 12 j @ memset0 (drop 12 j) 3 = take 12 iv @ replicate 4 0"
    using l by (simp add: j memset0_def numeral_eq_Suc)
  moreover have "(take 12 iv @ replicate 4 0)[15 := 1] = take 12 iv @ [0, 0, 0, 1]"
    using l by (simp add: list_update_append numeral_eq_Suc)
  ultimately have "(take 12 j @ memset0 (drop 12 j) 3)[15 := 1] = take 12 iv @ [0, 0, 0, 1]"
    by simp
  then show ?thesis
    using True
    by (simp add: gcm_J0_def gcm_J0_value_def AES_GCM_IV_LEN_def AES_BLOCKLEN_def Let_def j_def)
next
  case False
  define m1 where "m1 = frame0(H := h, len_block := replicate 16 0)"
  have e: "encode_length w len_block 8 m1 = m1" for w
    by (rule encode_length_beyond) (simp add: m1_def)
  have z: "m1(GCM_S := memset0 (m1 GCM_S) 16) = m1"
    by (rule ext) (simp add: m1_def frame0_def memset0_def)
  have g: "ghash_update GCM_S H d n m1 = m1" for d n
    by (rule ghash_update_zero) (simp add: m1_def frame0_def)
  have j: "m1(J0 := memcpy (m1 J0) (m1 GCM_S) 16) = frame0(H := h, J0 := replicate 16 0)"
    by (rule ext) (simp add: m1_def frame0_def memcpy_def)
  have z': "(frame0(H := h, J0 := replicate 16 0))(GCM_S := memset0 ((frame0(H := h, J0 := replicate 16 0)) GCM_S) 16)
              = frame0(H := h, J0 := replicate 16 0)"
    by (rule ext) (simp add: frame0_def memset0_def)
  show ?thesis
    using False
    apply (simp add: gcm_J0_def AES_GCM_IV_LEN_def Let_def m1_def [symmetric] e z g j gcm_J0_value_def
        cong: let_weak_cong)
    apply (rule ext)
    apply (simp add: frame0_def memset0_def)
    done
qed

lemma fold_store_upt:
  "n \<le> length t \<Longrightarrow> fold (\<lambda>i t. t[i := g i]) [0..<n] t = map g [0..<n] @ drop n t"
proof (induction n)
  case 0
  show ?case by simp
next
  case (Suc n)
  then have "drop n t = t ! n # drop (Suc n) t"
    by (simp add: Cons_nth_drop_Suc)
  then show ?case
    using Suc by (simp add: list_update_append)
qed

lemma map_nth_16: "length xs = 16 \<Longrightarrow> map ((!) xs) [0..<16] = xs"
  by (metis map_nth)

lemma xor_byte_eq_0: "(x XOR y = (0 :: byte)) = (x = y)"
proof
  assume "x XOR y = 0"
  then have "x XOR (x XOR y) = x XOR 0"
    by simp
  then show "x = y"
    by (simp add: xor.assoc [symmetric])
next
  assume "x = y"
  then show "x XOR y = 0"
    by simp
qed

lemma memcmp_fold_zero:
  "(fold (\<lambda>i r. r OR ((a ! i) XOR (b ! i))) [0..<n] (r0 :: byte) = 0)
     = (r0 = 0 \<and> (\<forall>i < n. a ! i = b ! i))"
proof (induction n)
  case 0
  show ?case by simp
next
  case (Suc n)
  show ?case
    by (auto simp: Suc or_eq_0_iff less_Suc_eq xor_byte_eq_0)
qed

lemma constant_time_memcmp_eq:
  assumes "n \<le> length a" "n \<le> length b"
  shows "(constant_time_memcmp a b n \<noteq> 0) = (take n a \<noteq> take n b)"
proof -
  have "(take n a = take n b) = (\<forall>i < n. a ! i = b ! i)"
    using assms by (simp add: list_eq_iff_nth_eq)
  then show ?thesis
    by (simp add: constant_time_memcmp_def memcmp_fold_zero Let_def)
qed

lemma bytes_simps [simp]: "bytes (Some b) = b" "bytes None = []"
  by (simp_all add: bytes_def)

lemma readable_simps [simp]: "readable (Some b) n = (n \<le> length b)" "readable None n = (n = 0)"
  by (simp_all add: readable_def)

lemma frame0_apply: "frame0 a = replicate 16 0"
  by (simp add: frame0_def)

lemma gcm_final_len_block_other:
  "a \<noteq> final_len_block \<Longrightarrow> gcm_final_len_block x y m a = m a"
  by (simp add: gcm_final_len_block_def encode_length_def store_byte_def Let_def)

lemma tag_fold:
  assumes "16 \<le> length tagb" "length ek = 16"
  shows "fold (\<lambda>i t. t[i := (replicate 16 (0 :: byte) ! i) XOR (ek ! i)]) [0..<16] tagb = ek @ drop 16 tagb"
proof -
  have "map (\<lambda>i. (replicate 16 (0 :: byte) ! i) XOR (ek ! i)) [0..<16] = ek"
    using assms(2) by (simp add: list_eq_iff_nth_eq)
  then show ?thesis
    using assms(1) by (simp add: fold_store_upt)
qed

lemma AES_GCM_encrypt_eq:
  assumes "iv = Some ivb" "0 < iv_len" "iv_len \<le> length ivb"
    and "readable aad aad_len" "readable pt pt_len"
    and "ct = Some ctb" "pt_len \<le> length ctb" "tag = Some tagb" "16 \<le> length tagb"
  shows "AES_GCM_encrypt cfg ctx iv iv_len aad aad_len pt ct pt_len tag =
           Some (0, Some (gcm_text_value ivb iv_len (bytes pt) ctb pt_len),
                    Some (gcm_tag_value cfg ctx ivb iv_len @ drop 16 tagb))"
proof -
  have n: "(aad = None \<and> 0 < aad_len) = False" "(pt = None \<and> 0 < pt_len) = False"
    using assms(4,5) by (auto simp: readable_def split: option.splits)
  have l: "12 \<le> length ivb \<or> iv_len \<noteq> 12"
    using assms(3) by auto
  define j where "j = gcm_J0_value ivb iv_len"
  have lj: "length j = 16"
    unfolding j_def using l by (rule length_gcm_J0_value)
  define ek where "ek = Cipher cfg j (RoundKey ctx)"
  have lek: "length ek = 16"
    by (simp add: ek_def lj)
  define c1 where "c1 = increment_counter_j0 j"
  have lc: "length c1 = 16"
    by (simp add: c1_def lj)
  have lm: "pt_len \<le> length (memcpy ctb (bytes pt) pt_len)"
    using assms(5,7) by (auto simp: memcpy_def readable_def bytes_def split: option.splits)
  have x: "snd (AES_CTR_xcrypt_buffer cfg ctx c1 (memcpy ctb (bytes pt) pt_len) pt_len)
             = ctr_applied c1 (memcpy ctb (bytes pt) pt_len) pt_len"
    using lc lm by (rule AES_CTR_xcrypt_buffer_eq)
  have x0: "ctr_applied c1 (memcpy ctb p 0) 0 = ctb" for p
    by (simp add: ctr_applied_def memcpy_def)
  have t: "fold (\<lambda>i t. t[i := (replicate 16 (0 :: byte) ! i) XOR (ek ! i)]) [0..<16] tagb = ek @ drop 16 tagb"
    using assms(9) lek by (rule tag_fold)
  have mj: "memcpy (replicate 16 0) j 16 = j"
    using lj by (simp add: memcpy_def)
  show ?thesis
    using assms n
    by (simp add: AES_GCM_encrypt_def AES_GCM_TAG_LEN_def AES_BLOCKLEN_def
        Let_def gcm_J0_frame [OF l] j_def [symmetric] frame0_apply mj ek_def [symmetric]
        ghash_update_zero gcm_final_len_block_other c1_def [symmetric] x t x0
        gcm_text_value_def gcm_tag_value_def case_prod_beta cong: let_weak_cong)
qed



lemma AES_GCM_decrypt_eq:
  assumes "iv = Some ivb" "0 < iv_len" "iv_len \<le> length ivb"
    and "readable aad aad_len" "readable ct ct_len"
    and "pt = Some ptb" "ct_len \<le> length ptb" "tag = Some tagb" "16 \<le> length tagb"
  shows "AES_GCM_decrypt cfg ctx iv iv_len aad aad_len ct pt ct_len tag =
           (if take 16 tagb \<noteq> gcm_tag_value cfg ctx ivb iv_len
            then Some (- 3, Some (memset0 ptb ct_len))
            else Some (0, Some (gcm_text_value ivb iv_len (bytes ct) ptb ct_len)))"
proof -
  have n: "(aad = None \<and> 0 < aad_len) = False" "(ct = None \<and> 0 < ct_len) = False"
    using assms(4,5) by (auto simp: readable_def split: option.splits)
  have l: "12 \<le> length ivb \<or> iv_len \<noteq> 12"
    using assms(3) by auto
  define j where "j = gcm_J0_value ivb iv_len"
  have lj: "length j = 16"
    unfolding j_def using l by (rule length_gcm_J0_value)
  define ek where "ek = Cipher cfg j (RoundKey ctx)"
  have lek: "length ek = 16"
    by (simp add: ek_def lj)
  define c1 where "c1 = increment_counter_j0 j"
  have lc: "length c1 = 16"
    by (simp add: c1_def lj)
  have lm: "ct_len \<le> length (memcpy ptb (bytes ct) ct_len)"
    using assms(5,7) by (auto simp: memcpy_def readable_def bytes_def split: option.splits)
  have x: "snd (AES_CTR_xcrypt_buffer cfg ctx c1 (memcpy ptb (bytes ct) ct_len) ct_len)
             = ctr_applied c1 (memcpy ptb (bytes ct) ct_len) ct_len"
    using lc lm by (rule AES_CTR_xcrypt_buffer_eq)
  have x0: "ctr_applied c1 (memcpy ptb p 0) 0 = ptb" for p
    by (simp add: ctr_applied_def memcpy_def)
  have "fold (\<lambda>i t. t[i := (replicate 16 (0 :: byte) ! i) XOR (ek ! i)]) [0..<16] (replicate 16 0)
          = ek @ drop 16 (replicate 16 0)"
    using lek by (intro tag_fold) simp_all
  then have t: "fold (\<lambda>i t. t[i := (replicate 16 (0 :: byte) ! i) XOR (ek ! i)]) [0..<16] (replicate 16 0) = ek"
    by simp
  have c: "(constant_time_memcmp ek tagb 16 \<noteq> 0) = (take 16 tagb \<noteq> ek)"
    using assms(9) lek by (auto simp: constant_time_memcmp_eq)
  have mj: "memcpy (replicate 16 0) j 16 = j"
    using lj by (simp add: memcpy_def)
  show ?thesis
    using assms n
    by (simp add: AES_GCM_decrypt_def AES_GCM_TAG_LEN_def AES_BLOCKLEN_def
        Let_def gcm_J0_frame [OF l] j_def [symmetric] frame0_apply mj ek_def [symmetric]
        ghash_update_zero gcm_final_len_block_other c1_def [symmetric] x t x0 c
        gcm_text_value_def gcm_tag_value_def case_prod_beta cong: let_weak_cong)
qed

lemma AES_GCM_encrypt_guard:
  "iv_len = 0 \<or> (aad = None \<and> aad_len > 0) \<or> (pt = None \<and> pt_len > 0) \<or> ct = None \<or> tag = None \<Longrightarrow>
   AES_GCM_encrypt cfg ctx iv iv_len aad aad_len pt ct pt_len tag = Some (- 1, ct, tag)"
  by (simp add: AES_GCM_encrypt_def)

lemma AES_GCM_decrypt_guard:
  "iv_len = 0 \<or> (aad = None \<and> aad_len > 0) \<or> (ct = None \<and> ct_len > 0) \<or> pt = None \<or> tag = None \<Longrightarrow>
   AES_GCM_decrypt cfg ctx iv iv_len aad aad_len ct pt ct_len tag = Some (- 1, pt)"
  by (simp add: AES_GCM_decrypt_def)

lemma AES_GCM_encrypt_undefined:
  assumes "\<not> (iv_len = 0 \<or> (aad = None \<and> aad_len > 0) \<or> (pt = None \<and> pt_len > 0) \<or> ct = None \<or> tag = None)"
    and "\<not> (readable iv iv_len \<and> iv \<noteq> None \<and> readable aad aad_len \<and> readable pt pt_len
              \<and> readable ct pt_len \<and> readable tag AES_GCM_TAG_LEN)"
  shows "AES_GCM_encrypt cfg ctx iv iv_len aad aad_len pt ct pt_len tag = None"
  using assms unfolding AES_GCM_encrypt_def by (simp only: if_False if_True)

lemma AES_GCM_decrypt_undefined:
  assumes "\<not> (iv_len = 0 \<or> (aad = None \<and> aad_len > 0) \<or> (ct = None \<and> ct_len > 0) \<or> pt = None \<or> tag = None)"
    and "\<not> (readable iv iv_len \<and> iv \<noteq> None \<and> readable aad aad_len \<and> readable ct ct_len
              \<and> readable pt ct_len \<and> readable tag AES_GCM_TAG_LEN)"
  shows "AES_GCM_decrypt cfg ctx iv iv_len aad aad_len ct pt ct_len tag = None"
  using assms unfolding AES_GCM_decrypt_def by (simp only: if_False if_True)

subsection \<open>Values at the inputs of the examples\<close>

lemma Cipher_zero_ctx_J0:
  "Cipher shipped [0, 0, 0, 0, 0, 0, 0, 0, 0, 0, 0, 0, 0, 0, 0, 1] (replicate 368 0) =
     [0xE0, 0xE8, 0xA7, 0x15, 0xDA, 0x6B, 0x79, 0xC0, 0xF3, 0xDF, 0x46, 0xAD, 0x8B, 0x76, 0x9C, 0x31]"
  by (simp add: Cipher_def Cipher_rounds.simps SubBytes_def ShiftRows_def MixColumns_def
      MixColumn_def AddRoundKey_def xtime_def upt4 Nb_def Nr_def shipped_def getSBoxValue_def
      sbox_def Let_def cong: let_weak_cong)

lemma gcm_tag_value_zero:
  "gcm_tag_value shipped zero_ctx zero_iv 12 =
     [0xE0, 0xE8, 0xA7, 0x15, 0xDA, 0x6B, 0x79, 0xC0, 0xF3, 0xDF, 0x46, 0xAD, 0x8B, 0x76, 0x9C, 0x31]"
  by (simp add: gcm_tag_value_def gcm_J0_value_def zero_iv_def zero_ctx_def Cipher_zero_ctx_J0)

lemma increment_zero_J0:
  "increment_counter_j0 [0, 0, 0, 0, 0, 0, 0, 0, 0, 0, 0, 0, 0, 0, 0, 1] = [0, 0, 0, 0, 0, 0, 0, 0, 0, 0, 0, 0, 0, 0, 0, 2]"
  "increment_counter_j0 [0, 0, 0, 0, 0, 0, 0, 0, 0, 0, 0, 0, 0, 0, 0, 2] = [0, 0, 0, 0, 0, 0, 0, 0, 0, 0, 0, 0, 0, 0, 0, 3]"
  by (simp_all add: increment_counter_j0_def increment_loop.simps AES_BLOCKLEN_def)

lemma gcm_text_value_zero1:
  "gcm_text_value zero_iv 12 [a] [b] 1 = [a]"
  by (simp add: gcm_text_value_def gcm_J0_value_def zero_iv_def increment_zero_J0 ctr_applied_def
      ctr_stream_byte_def nth_counter_def memcpy_def)

subsection \<open>The two functions by cases\<close>

lemma AES_GCM_encrypt_cases:
  "AES_GCM_encrypt cfg ctx iv iv_len aad aad_len pt ct pt_len tag =
     (if iv_len = 0 \<or> (aad = None \<and> aad_len > 0) \<or> (pt = None \<and> pt_len > 0) \<or> ct = None \<or> tag = None
      then Some (- 1, ct, tag)
      else if readable iv iv_len \<and> iv \<noteq> None \<and> readable aad aad_len \<and> readable pt pt_len
              \<and> readable ct pt_len \<and> readable tag 16
      then Some (0, Some (gcm_text_value (bytes iv) iv_len (bytes pt) (bytes ct) pt_len),
                    Some (gcm_tag_value cfg ctx (bytes iv) iv_len @ drop 16 (bytes tag)))
      else None)"
proof (cases "iv_len = 0 \<or> (aad = None \<and> aad_len > 0) \<or> (pt = None \<and> pt_len > 0) \<or> ct = None \<or> tag = None")
  case True
  then show ?thesis
    using AES_GCM_encrypt_guard [OF True, of cfg ctx iv] by simp
next
  case False
  show ?thesis
  proof (cases "readable iv iv_len \<and> iv \<noteq> None \<and> readable aad aad_len \<and> readable pt pt_len
              \<and> readable ct pt_len \<and> readable tag AES_GCM_TAG_LEN")
    case v: False
    then show ?thesis
      using False AES_GCM_encrypt_undefined [OF False v, of cfg ctx] by (simp add: AES_GCM_TAG_LEN_def)
  next
    case v: True
    obtain ivb ctb tagb where s: "iv = Some ivb" "ct = Some ctb" "tag = Some tagb"
      using False v by auto
    have "AES_GCM_encrypt cfg ctx iv iv_len aad aad_len pt ct pt_len tag =
           Some (0, Some (gcm_text_value ivb iv_len (bytes pt) ctb pt_len),
                    Some (gcm_tag_value cfg ctx ivb iv_len @ drop 16 tagb))"
      using False v s by (intro AES_GCM_encrypt_eq) (simp_all add: AES_GCM_TAG_LEN_def)
    then show ?thesis
      using False v s by (simp add: AES_GCM_TAG_LEN_def)
  qed
qed

lemma AES_GCM_decrypt_cases:
  "AES_GCM_decrypt cfg ctx iv iv_len aad aad_len ct pt ct_len tag =
     (if iv_len = 0 \<or> (aad = None \<and> aad_len > 0) \<or> (ct = None \<and> ct_len > 0) \<or> pt = None \<or> tag = None
      then Some (- 1, pt)
      else if readable iv iv_len \<and> iv \<noteq> None \<and> readable aad aad_len \<and> readable ct ct_len
              \<and> readable pt ct_len \<and> readable tag 16
      then (if take 16 (bytes tag) \<noteq> gcm_tag_value cfg ctx (bytes iv) iv_len
            then Some (- 3, Some (memset0 (bytes pt) ct_len))
            else Some (0, Some (gcm_text_value (bytes iv) iv_len (bytes ct) (bytes pt) ct_len)))
      else None)"
proof (cases "iv_len = 0 \<or> (aad = None \<and> aad_len > 0) \<or> (ct = None \<and> ct_len > 0) \<or> pt = None \<or> tag = None")
  case True
  then show ?thesis
    using AES_GCM_decrypt_guard [OF True, of cfg ctx iv] by simp
next
  case False
  show ?thesis
  proof (cases "readable iv iv_len \<and> iv \<noteq> None \<and> readable aad aad_len \<and> readable ct ct_len
              \<and> readable pt ct_len \<and> readable tag AES_GCM_TAG_LEN")
    case v: False
    then show ?thesis
      using False AES_GCM_decrypt_undefined [OF False v, of cfg ctx] by (simp add: AES_GCM_TAG_LEN_def)
  next
    case v: True
    obtain ivb ptb tagb where s: "iv = Some ivb" "pt = Some ptb" "tag = Some tagb"
      using False v by auto
    have "AES_GCM_decrypt cfg ctx iv iv_len aad aad_len ct pt ct_len tag =
           (if take 16 tagb \<noteq> gcm_tag_value cfg ctx ivb iv_len
            then Some (- 3, Some (memset0 ptb ct_len))
            else Some (0, Some (gcm_text_value ivb iv_len (bytes ct) ptb ct_len)))"
      using False v s by (intro AES_GCM_decrypt_eq) (simp_all add: AES_GCM_TAG_LEN_def)
    then show ?thesis
      using False v s by (simp add: AES_GCM_TAG_LEN_def)
  qed
qed

lemma gcm_text_value_zero_Suc: "gcm_text_value zero_iv 12 [a] [b] (Suc 0) = [a]"
  using gcm_text_value_zero1 [of a b] by simp

lemma length_gcm_tag_value:
  "12 \<le> length iv \<or> iv_len \<noteq> 12 \<Longrightarrow> length (gcm_tag_value cfg ctx iv iv_len) = 16"
  by (simp add: gcm_tag_value_def length_gcm_J0_value)

lemma length_ctr_applied: "n \<le> length buf \<Longrightarrow> length (ctr_applied c buf n) = length buf"
  by (simp add: ctr_applied_def)

lemma ctr_round_trip:
  assumes "n \<le> length src" "n \<le> length dst" "n \<le> length buf"
  shows "ctr_applied c (memcpy buf (ctr_applied c (memcpy dst src n) n) n) n = take n src @ drop n buf"
proof (rule nth_equalityI)
  show "length (ctr_applied c (memcpy buf (ctr_applied c (memcpy dst src n) n) n) n) = length (take n src @ drop n buf)"
    using assms by (simp add: ctr_applied_def memcpy_def)
next
  fix i
  assume "i < length (ctr_applied c (memcpy buf (ctr_applied c (memcpy dst src n) n) n) n)"
  then have i: "i < length buf"
    using assms by (simp add: ctr_applied_def memcpy_def)
  show "ctr_applied c (memcpy buf (ctr_applied c (memcpy dst src n) n) n) n ! i = (take n src @ drop n buf) ! i"
  proof (cases "i < n")
    case True
    then show ?thesis
      using assms by (simp add: ctr_applied_def memcpy_def nth_append xor.assoc)
  next
    case False
    then show ?thesis
      using i assms by (simp add: ctr_applied_def memcpy_def nth_append)
  qed
qed

lemma encrypt_invalid_argument_iff:
  "(AES_GCM_encrypt cfg ctx iv iv_len aad aad_len pt ct pt_len tag = Some (- 1, c, t))
     = ((iv_len = 0 \<or> (aad = None \<and> 0 < aad_len) \<or> (pt = None \<and> 0 < pt_len) \<or> ct = None \<or> tag = None)
        \<and> c = ct \<and> t = tag)"
proof (cases "iv_len = 0 \<or> (aad = None \<and> 0 < aad_len) \<or> (pt = None \<and> 0 < pt_len) \<or> ct = None \<or> tag = None")
  case True
  have "AES_GCM_encrypt cfg ctx iv iv_len aad aad_len pt ct pt_len tag = Some (- 1, ct, tag)"
    using True by (rule AES_GCM_encrypt_guard)
  then show ?thesis
    using True by auto
next
  case False
  have "AES_GCM_encrypt cfg ctx iv iv_len aad aad_len pt ct pt_len tag \<noteq> Some (- 1, c, t)"
    by (subst AES_GCM_encrypt_cases) (simp only: False if_False, simp)
  then show ?thesis
    using False by simp
qed

lemma decrypt_invalid_argument_iff:
  "(AES_GCM_decrypt cfg ctx iv iv_len aad aad_len ct pt ct_len tag = Some (- 1, p))
     = ((iv_len = 0 \<or> (aad = None \<and> 0 < aad_len) \<or> (ct = None \<and> 0 < ct_len) \<or> pt = None \<or> tag = None)
        \<and> p = pt)"
proof (cases "iv_len = 0 \<or> (aad = None \<and> 0 < aad_len) \<or> (ct = None \<and> 0 < ct_len) \<or> pt = None \<or> tag = None")
  case True
  have "AES_GCM_decrypt cfg ctx iv iv_len aad aad_len ct pt ct_len tag = Some (- 1, pt)"
    using True by (rule AES_GCM_decrypt_guard)
  then show ?thesis
    using True by auto
next
  case False
  have "AES_GCM_decrypt cfg ctx iv iv_len aad aad_len ct pt ct_len tag \<noteq> Some (- 1, p)"
    by (subst AES_GCM_decrypt_cases) (simp only: False if_False, simp)
  then show ?thesis
    using False by simp
qed

lemma key_copy_fold:
  "4 * n \<le> length Key \<Longrightarrow> 4 * n \<le> length rk \<Longrightarrow>
   fold (key_copy_word Key) [0..<n] rk = take (4 * n) Key @ drop (4 * n) rk"
proof (induction n)
  case 0
  show ?case by simp
next
  case (Suc n)
  define L where "L = take (4 * n) Key @ drop (4 * n) rk"
  have f: "fold (key_copy_word Key) [0..<Suc n] rk = key_copy_word Key n L"
    using Suc by (simp add: L_def)
  have "key_copy_word Key n L = take (4 * Suc n) Key @ drop (4 * Suc n) rk"
  proof (rule nth_equalityI)
    show "length (key_copy_word Key n L) = length (take (4 * Suc n) Key @ drop (4 * Suc n) rk)"
      using Suc.prems by (simp add: key_copy_word_def L_def Let_def)
  next
    fix i
    assume "i < length (key_copy_word Key n L)"
    then have i: "i < length rk"
      using Suc.prems by (simp add: key_copy_word_def L_def Let_def)
    have lL: "length L = length rk"
      using Suc.prems by (simp add: L_def)
    consider "i < 4 * n" | "i = n * 4" | "i = n * 4 + 1" | "i = n * 4 + 2" | "i = n * 4 + 3" | "4 * n + 4 \<le> i"
      by linarith
    then show "key_copy_word Key n L ! i = (take (4 * Suc n) Key @ drop (4 * Suc n) rk) ! i"
    proof cases
      case 1
      then show ?thesis
        using Suc.prems i lL by (simp add: key_copy_word_def Let_def nth_append L_def)
    next
      case 2
      then show ?thesis
        using Suc.prems i lL by (simp add: key_copy_word_def Let_def nth_append)
    next
      case 3
      then show ?thesis
        using Suc.prems i lL by (simp add: key_copy_word_def Let_def nth_append)
    next
      case 4
      then show ?thesis
        using Suc.prems i lL by (simp add: key_copy_word_def Let_def nth_append)
    next
      case 5
      then show ?thesis
        using Suc.prems i lL by (simp add: key_copy_word_def Let_def nth_append)
    next
      case 6
      then show ?thesis
        using Suc.prems i lL by (simp add: key_copy_word_def Let_def nth_append L_def)
    qed
  qed
  then show ?case
    using f by simp
qed

lemma key_expand_from_None: "key_expand_from cfg is None = None"
  by (induction "is") (simp_all add: key_expand_from_def)

lemma key_expand_from_append:
  "key_expand_from cfg (is @ js) r = key_expand_from cfg js (key_expand_from cfg is r)"
  by (simp add: key_expand_from_def)

lemma key_expand_word_shipped_88: "key_expand_word shipped 88 rk = None"
  by (simp add: key_expand_word_def Nk_def shipped_def Rcon_at_def Rcon_def Let_def)

lemma key_expand_from_shipped_88: "key_expand_from shipped (88 # js) r = None"
proof (cases r)
  case None
  then show ?thesis
    by (simp add: key_expand_from_None)
next
  case (Some rk)
  have "key_expand_from shipped (88 # js) (Some rk) = key_expand_from shipped js (key_expand_word shipped 88 rk)"
    by (simp add: key_expand_from_def)
  then show ?thesis
    using Some by (simp add: key_expand_word_shipped_88 key_expand_from_None)
qed

lemma KeyExpansion_shipped: "KeyExpansion shipped rk Key = None"
proof -
  have n: "Nk shipped = 8" "Nb * (Nr shipped + 1) = 92"
    by (simp_all add: Nk_def Nr_def Nb_def shipped_def)
  have "[8..<88 + 4] = [8..<88] @ [88..<88 + 4]"
    by (rule upt_add_eq_append) simp
  moreover have "[88..<92] = 88 # [Suc 88..<92]"
    by (rule upt_conv_Cons) simp
  ultimately have s: "[8..<92] = [8..<88] @ 88 # [Suc 88..<92]"
    by simp
  show ?thesis
    unfolding KeyExpansion_def n s key_expand_from_append
    by (rule key_expand_from_shipped_88)
qed

lemma GF_mul_spec_nist:
  "GF_mul_spec nist_C nist_H =
     [0x5E, 0x2E, 0xC7, 0x46, 0x91, 0x70, 0x62, 0x88, 0x2C, 0x85, 0xB0, 0x68, 0x53, 0x53, 0xDE, 0xB7]"
  by (simp add: GF_mul_spec_def GF_mul_bit_spec_def xor16_spec_def shift_right_spec_def nist_C_def
      nist_H_def upt16 upt8 rep16 Let_def)

lemma GF_mul_spec_nist5_iv:
  "GF_mul_spec [0xCA, 0xFE, 0xBA, 0xBE, 0xFA, 0xCE, 0xDB, 0xAD, 0, 0, 0, 0, 0, 0, 0, 0] nist_H5 =
     [0x6F, 0x28, 0x8B, 0x84, 0x6E, 0x5F, 0xED, 0x9A, 0x18, 0x37, 0x68, 0x29, 0xC8, 0x6A, 0x6A, 0x16]"
  by (simp add: GF_mul_spec_def GF_mul_bit_spec_def xor16_spec_def shift_right_spec_def
      nist_H5_def upt16 upt8 rep16 Let_def)

lemma GF_mul_spec_nist5_len:
  "GF_mul_spec [0x6F, 0x28, 0x8B, 0x84, 0x6E, 0x5F, 0xED, 0x9A, 0x18, 0x37, 0x68, 0x29, 0xC8, 0x6A, 0x6A, 0x56] nist_H5 =
     [0xC4, 0x3A, 0x83, 0xC4, 0xC4, 0xBA, 0xDE, 0xC4, 0x35, 0x4C, 0xA9, 0x84, 0xDB, 0x25, 0x2F, 0x7D]"
  by (simp add: GF_mul_spec_def GF_mul_bit_spec_def xor16_spec_def shift_right_spec_def
      nist_H5_def upt16 upt8 rep16 Let_def)

lemma upt8_be: "[0..<8] = [0, 1, 2, 3, 4, 5, 6, 7]"
  by (simp add: upt_rec)

lemma iv_length_block_spec_8: "iv_length_block_spec 8 = [0, 0, 0, 0, 0, 0, 0, 0, 0, 0, 0, 0, 0, 0, 0, 0x40]"
proof -
  have "replicate 8 (0 :: byte) = [0, 0, 0, 0, 0, 0, 0, 0]"
    by (simp add: numeral_eq_Suc)
  then show ?thesis
    by (simp add: iv_length_block_spec_def be_bytes_spec_def upt8)
qed

lemma blocks_spec_one: "length D = 16 \<Longrightarrow> blocks_spec D = [D]"
  by (subst blocks_spec.simps, subst blocks_spec.simps) auto

lemma J0_spec_nist5:
  "J0_spec nist_H5 nist_IV5 =
     [0xC4, 0x3A, 0x83, 0xC4, 0xC4, 0xBA, 0xDE, 0xC4, 0x35, 0x4C, 0xA9, 0x84, 0xDB, 0x25, 0x2F, 0x7D]"
proof -
  have "take 8 nist_IV5 = nist_IV5"
    by (simp add: nist_IV5_def)
  moreover have "blocks_spec nist_IV5 = [[0xCA, 0xFE, 0xBA, 0xBE, 0xFA, 0xCE, 0xDB, 0xAD, 0, 0, 0, 0, 0, 0, 0, 0]]"
    by (subst blocks_spec.simps, subst blocks_spec.simps) (simp add: nist_IV5_def numeral_eq_Suc)
  ultimately have b: "blocks_spec (take 8 nist_IV5) = [[0xCA, 0xFE, 0xBA, 0xBE, 0xFA, 0xCE, 0xDB, 0xAD, 0, 0, 0, 0, 0, 0, 0, 0]]"
    by simp
  have x1: "xor16_spec (replicate 16 0) [0xCA, 0xFE, 0xBA, 0xBE, 0xFA, 0xCE, 0xDB, 0xAD, 0, 0, 0, 0, 0, 0, 0, 0]
              = [0xCA, 0xFE, 0xBA, 0xBE, 0xFA, 0xCE, 0xDB, 0xAD, 0, 0, 0, 0, 0, 0, 0, 0]"
    by (simp add: xor16_spec_def upt16 rep16)
  have s1: "GHASH_update_spec (replicate 16 0) nist_H5 nist_IV5 8
              = [0x6F, 0x28, 0x8B, 0x84, 0x6E, 0x5F, 0xED, 0x9A, 0x18, 0x37, 0x68, 0x29, 0xC8, 0x6A, 0x6A, 0x16]"
    by (simp add: GHASH_update_spec_def b x1 GF_mul_spec_nist5_iv)
  have l: "length nist_IV5 = 8"
    by (simp add: nist_IV5_def)
  have b2: "blocks_spec (take 16 (iv_length_block_spec 8)) = [[0, 0, 0, 0, 0, 0, 0, 0, 0, 0, 0, 0, 0, 0, 0, 0x40]]"
    by (simp add: iv_length_block_spec_8 blocks_spec_one)
  have x2: "xor16_spec [0x6F, 0x28, 0x8B, 0x84, 0x6E, 0x5F, 0xED, 0x9A, 0x18, 0x37, 0x68, 0x29, 0xC8, 0x6A, 0x6A, 0x16]
              [0, 0, 0, 0, 0, 0, 0, 0, 0, 0, 0, 0, 0, 0, 0, 0x40]
            = [0x6F, 0x28, 0x8B, 0x84, 0x6E, 0x5F, 0xED, 0x9A, 0x18, 0x37, 0x68, 0x29, 0xC8, 0x6A, 0x6A, 0x56]"
    by (simp add: xor16_spec_def upt16)
  show ?thesis
    unfolding J0_spec_def l s1
    by (simp add: GHASH_update_spec_def b2 x2 GF_mul_spec_nist5_len)
qed

lemma ghash_update_empty: "ghash_update s h D 0 m = m"
  by (simp add: ghash_update_aliased)

lemma counter_block_spec_one: "counter_block_spec one_block 0 = one_block"
  by (simp add: counter_block_spec_def one_block_def be_value_spec_def be_bytes_spec_def upt_rec [of _ 4])

lemma final_len_block_value:
  "gcm_final_len_block aad_len text_len m final_len_block =
     [0, 0, 0, 0, 0, 0, 0, 0,
      ucast (drop_bit 56 ((of_nat aad_len :: 64 word) * 8)), ucast (drop_bit 48 ((of_nat aad_len :: 64 word) * 8)),
      ucast (drop_bit 40 ((of_nat aad_len :: 64 word) * 8)), ucast (drop_bit 32 ((of_nat aad_len :: 64 word) * 8)),
      ucast (drop_bit 24 ((of_nat aad_len :: 64 word) * 8)), ucast (drop_bit 16 ((of_nat aad_len :: 64 word) * 8)),
      ucast (drop_bit 8 ((of_nat aad_len :: 64 word) * 8)), ucast ((of_nat aad_len :: 64 word) * 8)]"
  by (simp add: gcm_final_len_block_def encode_length_def store_byte_def Let_def rep16)

subsection \<open>Key length and rounds in the header\<close>

lemma key_length_rounds:
  "(AES_KEYLEN cfg = 64 \<and> Nr cfg = 22) \<or> (AES_KEYLEN cfg = 32 \<and> Nr cfg = 14)
   \<or> (AES_KEYLEN cfg = 24 \<and> Nr cfg = 12) \<or> (AES_KEYLEN cfg = 16 \<and> Nr cfg = 10)"
  by (simp add: AES_KEYLEN_def Nr_def)

subsection \<open>The run in which the stores past the arrays change nothing\<close>

text \<open>
  In that run a successful encryption is undone by the decryption into a buffer (not a
  null pointer) of at least \<open>pt_len\<close> bytes: both directions apply the same counter
  stream and compute the same tag.
\<close>

lemma round_trip_stores_dropped:
  assumes "AES_GCM_encrypt cfg ctx iv iv_len aad aad_len pt ct pt_len tag = Some (0, Some CT, Some Tag)"
    and "out = Some buf" and "pt_len \<le> length buf"
  shows "AES_GCM_decrypt cfg ctx iv iv_len aad aad_len (Some CT) out pt_len (Some Tag)
           = Some (0, Some (take pt_len (bytes pt) @ drop pt_len buf))"
proof -
  have e: "\<not> (iv_len = 0 \<or> (aad = None \<and> aad_len > 0) \<or> (pt = None \<and> pt_len > 0) \<or> ct = None \<or> tag = None)"
    using assms(1) by (auto simp: AES_GCM_encrypt_cases split: if_splits)
  have v: "readable iv iv_len \<and> iv \<noteq> None \<and> readable aad aad_len \<and> readable pt pt_len
              \<and> readable ct pt_len \<and> readable tag 16"
    using assms(1) e by (simp add: AES_GCM_encrypt_cases split: if_splits)
  obtain ivb ctb tagb where s: "iv = Some ivb" "ct = Some ctb" "tag = Some tagb"
    using e v by auto
  have l: "12 \<le> length ivb \<or> iv_len \<noteq> 12"
    using v s by auto
  have CT: "CT = gcm_text_value ivb iv_len (bytes pt) ctb pt_len"
    and Tag: "Tag = gcm_tag_value cfg ctx ivb iv_len @ drop 16 tagb"
    using assms(1) e v s by (auto simp: AES_GCM_encrypt_cases split: if_splits)
  have lp: "pt_len \<le> length (bytes pt)"
    using v by (cases pt) simp_all
  have lc: "pt_len \<le> length ctb"
    using v s by simp
  have lCT: "pt_len \<le> length CT"
    using lp lc by (simp add: CT gcm_text_value_def ctr_applied_def memcpy_def)
  have t: "take 16 Tag = gcm_tag_value cfg ctx ivb iv_len"
    using length_gcm_tag_value [OF l, of cfg ctx] by (simp add: Tag)
  have lT: "16 \<le> length Tag"
    using length_gcm_tag_value [OF l, of cfg ctx] by (simp add: Tag)
  have "gcm_text_value ivb iv_len CT buf pt_len = take pt_len (bytes pt) @ drop pt_len buf"
    unfolding CT gcm_text_value_def using lp lc assms(3) by (rule ctr_round_trip)
  then show ?thesis
    using e v s assms(2,3) lCT lT t by (simp add: AES_GCM_decrypt_cases)
qed

text \<open>
  In that run a call that returns \<open>AuthenticationFailed\<close> leaves the first \<open>ct_len\<close>
  bytes of the output buffer zero and the bytes after them as they were.
\<close>

lemma auth_failure_stores_dropped:
  assumes "AES_GCM_decrypt cfg ctx iv iv_len aad aad_len ct pt ct_len tag = Some (AuthenticationFailed, out)"
  shows "\<exists>buf. pt = Some buf \<and> ct_len \<le> length buf \<and> out = Some (replicate ct_len 0 @ drop ct_len buf)"
proof (cases "iv_len = 0 \<or> (aad = None \<and> aad_len > 0) \<or> (ct = None \<and> ct_len > 0) \<or> pt = None \<or> tag = None")
  case True
  then show ?thesis
    using assms AES_GCM_decrypt_guard [OF True, of cfg ctx iv] by (simp add: AuthenticationFailed_def)
next
  case False
  show ?thesis
  proof (cases "readable iv iv_len \<and> iv \<noteq> None \<and> readable aad aad_len \<and> readable ct ct_len
              \<and> readable pt ct_len \<and> readable tag AES_GCM_TAG_LEN")
    case v: False
    then show ?thesis
      using assms AES_GCM_decrypt_undefined [OF False v, of cfg ctx] by simp
  next
    case v: True
    obtain ivb ptb tagb where s: "iv = Some ivb" "pt = Some ptb" "tag = Some tagb"
      using False v by auto
    have "AES_GCM_decrypt cfg ctx iv iv_len aad aad_len ct pt ct_len tag =
           (if take 16 tagb \<noteq> gcm_tag_value cfg ctx ivb iv_len
            then Some (- 3, Some (memset0 ptb ct_len))
            else Some (0, Some (gcm_text_value ivb iv_len (bytes ct) ptb ct_len)))"
      using False v s by (intro AES_GCM_decrypt_eq) (simp_all add: AES_GCM_TAG_LEN_def)
    then have "out = Some (memset0 ptb ct_len)"
      using assms by (simp add: AuthenticationFailed_def split: if_splits)
    then show ?thesis
      using v s by (simp add: memset0_def)
  qed
qed

subsection \<open>The stores of \<^verbatim>\<open>encode_length\<close> under the C semantics\<close>

lemma length_store_byte [simp]: "length (store_byte a i v m b) = length (m b)"
  by (simp add: store_byte_def)

lemma length_encode_length [simp]: "length (encode_length v a off m b) = length (m b)"
  by (simp add: encode_length_def Let_def)


lemma encode_length_checked_beyond:
  "length (m a) = 16 \<Longrightarrow> encode_length_checked v a 8 m = None"
  by (simp add: encode_length_checked_def)

lemma gcm_final_len_block_checked_None: "gcm_final_len_block_checked aad_len text_len m = None"
  by (simp add: gcm_final_len_block_checked_def encode_length_checked_def Let_def)

lemma gcm_J0_checked_None: "iv_len \<noteq> 12 \<Longrightarrow> gcm_J0_checked iv iv_len m = None"
  by (simp add: gcm_J0_checked_def encode_length_checked_def AES_GCM_IV_LEN_def Let_def)

lemma AES_GCM_encrypt_checked_eq:
  "AES_GCM_encrypt_checked cfg ctx iv iv_len aad aad_len pt ct pt_len tag
     = (if iv_len = 0 \<or> (aad = None \<and> 0 < aad_len) \<or> (pt = None \<and> 0 < pt_len) \<or> ct = None \<or> tag = None
        then Some (- 1, ct, tag) else None)"
  by (simp add: AES_GCM_encrypt_checked_def gcm_final_len_block_checked_None Let_def split_def
      split: option.splits)

lemma AES_GCM_decrypt_checked_eq:
  "AES_GCM_decrypt_checked cfg ctx iv iv_len aad aad_len ct pt ct_len tag
     = (if iv_len = 0 \<or> (aad = None \<and> 0 < aad_len) \<or> (ct = None \<and> 0 < ct_len) \<or> pt = None \<or> tag = None
        then Some (- 1, pt) else None)"
  by (simp add: AES_GCM_decrypt_checked_def gcm_final_len_block_checked_None Let_def split_def
      split: option.splits)

text \<open>Where the checked functions have a result, the functions above have the same.\<close>

lemma AES_GCM_encrypt_checked_agrees:
  "AES_GCM_encrypt_checked cfg ctx iv iv_len aad aad_len pt ct pt_len tag = Some r
   \<Longrightarrow> AES_GCM_encrypt cfg ctx iv iv_len aad aad_len pt ct pt_len tag = Some r"
  by (simp add: AES_GCM_encrypt_checked_eq AES_GCM_encrypt_guard split: if_splits)

lemma AES_GCM_decrypt_checked_agrees:
  "AES_GCM_decrypt_checked cfg ctx iv iv_len aad aad_len ct pt ct_len tag = Some r
   \<Longrightarrow> AES_GCM_decrypt cfg ctx iv iv_len aad aad_len ct pt ct_len tag = Some r"
  by (simp add: AES_GCM_decrypt_checked_eq AES_GCM_decrypt_guard split: if_splits)

section \<open>Claims\<close>

text \<open>
  C1. The claim: \<^verbatim>\<open>ghash_update\<close> replaces \<open>S\<close>, for each 16-byte block \<open>B\<close> of the data,
  by the reference product of \<open>S XOR B\<close> and \<open>H\<close>. The code calls
  \<^verbatim>\<open>ghash_gmul(S, H, S)\<close>, whose first statement zeroes \<open>res\<close>, here \<open>S\<close> itself, so the
  factor \<open>x\<close> is read as zero and \<open>S\<close> is left zero after every block
  (\<open>ghash_update_aliased\<close>). At the first block of test case 2 of NIST SP 800-38D the
  accumulator is the zero block after the call, and the reference gives
  \<open>5e2ec746 91706288 2c85b068 5353deb7\<close>.
\<close>

theorem C1_ghash_update_aliasing:
  "ghash_update GCM_S H nist_C 16 (frame0(H := nist_H)) GCM_S = zero_block
   \<and> GHASH_update_spec ((frame0(H := nist_H)) GCM_S) ((frame0(H := nist_H)) H) nist_C 16
       = [0x5E, 0x2E, 0xC7, 0x46, 0x91, 0x70, 0x62, 0x88, 0x2C, 0x85, 0xB0, 0x68, 0x53, 0x53, 0xDE, 0xB7]"
proof -
  have "take 16 nist_C = nist_C"
    by (simp add: nist_C_def)
  moreover have "blocks_spec nist_C = [nist_C]"
    by (rule blocks_spec_one) (simp add: nist_C_def)
  moreover have "xor16_spec (replicate 16 0) nist_C = nist_C"
    by (simp add: xor16_spec_def upt16 rep16 nist_C_def)
  ultimately have "GHASH_update_spec (replicate 16 0) nist_H nist_C 16
       = [0x5E, 0x2E, 0xC7, 0x46, 0x91, 0x70, 0x62, 0x88, 0x2C, 0x85, 0xB0, 0x68, 0x53, 0x53, 0xDE, 0xB7]"
    by (simp add: GHASH_update_spec_def GF_mul_spec_nist)
  then show ?thesis
    by (simp add: ghash_update_aliased zero16_def frame0_apply zero_block_def rep16)
qed

text \<open>
  C2. The claim: after a successful encryption, flipping one bit of the ciphertext, of
  the AAD, of the IV or of the tag makes \<^verbatim>\<open>AES_GCM_decrypt\<close> return
  \<open>AuthenticationFailed\<close>. The GHASH accumulator is zero whatever is absorbed, so the tag
  is the encryption of the initial counter block alone. Under the zero context and the
  zero 12-byte IV, the tag made for the AAD \<open>00\<close> and a one-byte text is accepted with
  the AAD \<open>01\<close>, and with the ciphertext \<open>51\<close> in place of \<open>50\<close>: both calls return 0.
\<close>

theorem C2_tag_ignores_aad_and_ciphertext:
  "AES_GCM_encrypt shipped zero_ctx (Some zero_iv) 12 (Some [0x00]) 1 (Some [0x50]) (Some [0x77]) 1 (Some zero_block)
     = Some (0, Some [0x50],
             Some [0xE0, 0xE8, 0xA7, 0x15, 0xDA, 0x6B, 0x79, 0xC0, 0xF3, 0xDF, 0x46, 0xAD, 0x8B, 0x76, 0x9C, 0x31])
   \<and> AES_GCM_decrypt shipped zero_ctx (Some zero_iv) 12 (Some [0x01]) 1 (Some [0x50]) (Some [0x99]) 1
         (Some [0xE0, 0xE8, 0xA7, 0x15, 0xDA, 0x6B, 0x79, 0xC0, 0xF3, 0xDF, 0x46, 0xAD, 0x8B, 0x76, 0x9C, 0x31])
     = Some (0, Some [0x50])
   \<and> AES_GCM_decrypt shipped zero_ctx (Some zero_iv) 12 (Some [0x00]) 1 (Some [0x51]) (Some [0x99]) 1
         (Some [0xE0, 0xE8, 0xA7, 0x15, 0xDA, 0x6B, 0x79, 0xC0, 0xF3, 0xDF, 0x46, 0xAD, 0x8B, 0x76, 0x9C, 0x31])
     = Some (0, Some [0x51])"
  by (simp add: AES_GCM_encrypt_cases AES_GCM_decrypt_cases gcm_tag_value_zero gcm_text_value_zero_Suc
      zero_block_def)
     (simp add: zero_iv_def)

text \<open>
  C3. The claim: byte \<open>i\<close> of the buffer is XORed with byte \<open>i mod 16\<close> of the
  encryption of the counter block of block \<open>i div 16\<close>. The code copies the incremented
  counter block over the encrypted one before it uses it (line 605), so the keystream is
  the counter blocks \<open>C + 1\<close>, \<open>C + 2\<close>, ... themselves. With the counter block
  \<open>00 .. 00 01\<close> and sixteen zero bytes the code leaves \<open>00 .. 00 02\<close> in the buffer; the
  specification's stream under the zero context is the encryption of the counter block.
\<close>

theorem C3_ctr_keystream_is_the_counter:
  "snd (AES_CTR_xcrypt_buffer shipped zero_ctx one_block zero_block 16)
     = [0, 0, 0, 0, 0, 0, 0, 0, 0, 0, 0, 0, 0, 0, 0, 2]
   \<and> CTR_spec shipped zero_ctx one_block zero_block 16
     = [0xE0, 0xE8, 0xA7, 0x15, 0xDA, 0x6B, 0x79, 0xC0, 0xF3, 0xDF, 0x46, 0xAD, 0x8B, 0x76, 0x9C, 0x31]"
proof -
  have "snd (AES_CTR_xcrypt_buffer shipped zero_ctx one_block zero_block 16) = ctr_applied one_block zero_block 16"
    by (rule AES_CTR_xcrypt_buffer_eq) (simp_all add: one_block_def zero_block_def)
  moreover have "ctr_applied one_block zero_block 16 = [0, 0, 0, 0, 0, 0, 0, 0, 0, 0, 0, 0, 0, 0, 0, 2]"
    by (simp add: ctr_applied_def ctr_stream_byte_def nth_counter_def upt16 one_block_def zero_block_def
        increment_zero_J0)
  moreover have "CTR_spec shipped zero_ctx one_block zero_block 16
     = [0xE0, 0xE8, 0xA7, 0x15, 0xDA, 0x6B, 0x79, 0xC0, 0xF3, 0xDF, 0x46, 0xAD, 0x8B, 0x76, 0x9C, 0x31]"
    by (simp add: CTR_spec_def upt16 counter_block_spec_one zero_ctx_def)
       (simp add: one_block_def Cipher_zero_ctx_J0 zero_block_def)
  ultimately show ?thesis
    by simp
qed

text \<open>
  C4. The claim: the last block absorbed is the AAD length in bits, 8 bytes big-endian,
  followed by the text length in bits, 8 bytes big-endian. \<^verbatim>\<open>encode_length\<close> writes at
  \<open>block[8]\<close> to \<open>block[15]\<close>: called with \<open>final_len_block\<close> it puts the AAD length into
  bytes 8 to 15, and called with \<open>final_len_block + 8\<close> it stores past the end of the
  array. For one byte of AAD and no text the block is \<open>00 .. 00 08\<close> where the
  specification has the 08 in byte 7; for no AAD and 16 bytes of text it is zero where
  the specification ends in \<open>80\<close>.
\<close>

theorem C4_final_length_block:
  "gcm_final_len_block 1 0 m final_len_block = [0, 0, 0, 0, 0, 0, 0, 0, 0, 0, 0, 0, 0, 0, 0, 8]
   \<and> length_block_spec 1 0 = [0, 0, 0, 0, 0, 0, 0, 8, 0, 0, 0, 0, 0, 0, 0, 0]
   \<and> gcm_final_len_block 0 16 m final_len_block = [0, 0, 0, 0, 0, 0, 0, 0, 0, 0, 0, 0, 0, 0, 0, 0]
   \<and> length_block_spec 0 16 = [0, 0, 0, 0, 0, 0, 0, 0, 0, 0, 0, 0, 0, 0, 0, 0x80]"
  by (simp add: final_len_block_value length_block_spec_def be_bytes_spec_def upt8)

text \<open>
  C5. The claim: for an IV that is not 12 bytes long, \<open>J0\<close> is the accumulator after the
  padded IV and the block of 8 zero bytes and the IV length in bits. In the code the
  length is stored past the end of \<open>len_block\<close>, which stays zero, and the accumulator is
  zero after every block, so \<open>J0\<close> is the zero block for every such IV. With the hash
  subkey and the 8-byte IV of test case 5 of NIST SP 800-38D the specification gives
  \<open>c43a83c4 c4badec4 354ca984 db252f7d\<close>.
\<close>

theorem C5_J0_for_other_iv_lengths:
  "gcm_J0 nist_IV5 8 (frame0(H := nist_H5)) len_block = zero_block
   \<and> iv_length_block_spec 8 = [0, 0, 0, 0, 0, 0, 0, 0, 0, 0, 0, 0, 0, 0, 0, 0x40]
   \<and> gcm_J0 nist_IV5 8 (frame0(H := nist_H5)) J0 = zero_block
   \<and> J0_spec nist_H5 nist_IV5
       = [0xC4, 0x3A, 0x83, 0xC4, 0xC4, 0xBA, 0xDE, 0xC4, 0x35, 0x4C, 0xA9, 0x84, 0xDB, 0x25, 0x2F, 0x7D]"
proof -
  have "gcm_J0 nist_IV5 8 (frame0(H := nist_H5)) = frame0(H := nist_H5, J0 := gcm_J0_value nist_IV5 8)"
    by (rule gcm_J0_frame) simp
  then show ?thesis
    by (simp add: frame0_apply gcm_J0_value_def zero_block_def rep16 iv_length_block_spec_8 J0_spec_nist5)
qed

text \<open>
  C6. The claim: in the 22-round configuration for a 64-byte key the schedule uses
  \<open>Nk = 16\<close> and copies all 64 key bytes. With \<^verbatim>\<open>aes.h\<close> as written (all four macros 1)
  the header selects the key length 64 and 22 rounds, and \<^verbatim>\<open>aes.c\<close>, which tests
  \<^verbatim>\<open>AES256\<close> first, selects \<open>Nk = 8\<close>: the first loop of \<^verbatim>\<open>KeyExpansion\<close> copies the
  key bytes 0 to 31 and no other.
\<close>

theorem C6_shipped_key_words:
  "AES_KEYLEN shipped = 64 \<and> Nr shipped = 22 \<and> AES_KEYLEN shipped div 4 = 16 \<and> Nk shipped = 8
   \<and> fold (key_copy_word key_0_63) [0..<Nk shipped] (replicate 368 0xEE)
       = map of_nat [0..<32] @ replicate 336 0xEE"
proof -
  have n: "Nk shipped = 8"
    by (simp add: Nk_def shipped_def)
  have "fold (key_copy_word key_0_63) [0..<8] (replicate 368 0xEE)
          = take (4 * 8) key_0_63 @ drop (4 * 8) (replicate 368 0xEE)"
    by (rule key_copy_fold) (simp_all add: key_0_63_def)
  also have "\<dots> = map of_nat [0..<32] @ replicate 336 0xEE"
    by (simp add: key_0_63_def take_map)
  finally have c: "fold (key_copy_word key_0_63) [0..<8] (replicate 368 0xEE)
          = map of_nat [0..<32] @ replicate 336 0xEE" .
  have k: "AES_KEYLEN shipped = 64" "Nr shipped = 22"
    by (simp_all add: AES_KEYLEN_def Nr_def shipped_def)
  show ?thesis
    by (simp add: n k c)
qed



text \<open>
  C9, amended. For a non-null IV pointer, \<^verbatim>\<open>AES_GCM_encrypt\<close> returns
  \<open>InvalidArgument\<close> exactly when \<open>iv_len\<close> is 0, or \<open>aad\<close> is null with a positive
  \<open>aad_len\<close>, or \<open>pt\<close> is null with a positive \<open>pt_len\<close>, or \<open>ct\<close> is null, or \<open>tag\<close> is
  null, the two output pointers whatever the lengths; \<^verbatim>\<open>AES_GCM_decrypt\<close> likewise
  with \<open>ct\<close> as the input and \<open>pt\<close> as the output. In each such case the output buffers
  are returned as they were.
\<close>

theorem C9_invalid_argument_guard:
  assumes "iv \<noteq> None"
  shows "((AES_GCM_encrypt cfg ctx iv iv_len aad aad_len pt ct pt_len tag = Some (InvalidArgument, c, t))
            = ((iv_len = 0 \<or> (aad = None \<and> 0 < aad_len) \<or> (pt = None \<and> 0 < pt_len) \<or> ct = None \<or> tag = None)
               \<and> c = ct \<and> t = tag))
         \<and> ((AES_GCM_decrypt cfg ctx iv iv_len aad aad_len ct pt pt_len tag = Some (InvalidArgument, p))
            = ((iv_len = 0 \<or> (aad = None \<and> 0 < aad_len) \<or> (ct = None \<and> 0 < pt_len) \<or> pt = None \<or> tag = None)
               \<and> p = pt))"
  unfolding InvalidArgument_def
  by (rule conjI) (rule encrypt_invalid_argument_iff, rule decrypt_invalid_argument_iff)

text \<open>Calls with a null AAD pointer and the AAD length 3.\<close>

theorem C9_invalid_argument_witness:
  "Some zero_iv \<noteq> None
   \<and> AES_GCM_encrypt shipped zero_ctx (Some zero_iv) 12 None 3 (Some [0x50]) (Some [0x77]) 1 (Some zero_block)
       = Some (InvalidArgument, Some [0x77], Some zero_block)
   \<and> AES_GCM_decrypt shipped zero_ctx (Some zero_iv) 12 None 3 (Some [0x77]) (Some [0x50]) 1 (Some zero_block)
       = Some (InvalidArgument, Some [0x50])"
  using C9_invalid_argument_guard [of "Some zero_iv" shipped zero_ctx 12 None 3 "Some [0x50]" "Some [0x77]" 1
      "Some zero_block" "Some [0x77]" "Some zero_block" "Some [0x50]"]
  by simp

text \<open>
  The claim as it is written: \<open>InvalidArgument\<close> only when the IV length is 0 or a
  pointer is null while its length is positive. With an empty plaintext and a null
  \<open>ct\<close> no pointer is null while its length is positive, and the call returns
  \<open>InvalidArgument\<close>.
\<close>

theorem C9_null_output_counterexample:
  "AES_GCM_encrypt shipped zero_ctx (Some zero_iv) 12 None 0 None None 0 (Some zero_block)
     = Some (InvalidArgument, None, Some zero_block)
   \<and> \<not> invalid_argument_spec (Some zero_iv) 12 None 0 None None 0 (Some zero_block)"
  by (simp add: AES_GCM_encrypt_cases InvalidArgument_def invalid_argument_spec_def null_with_length_def)

text \<open>
  C10. The claim: under the compiled configuration every index \<open>i div Nk\<close> read from
  \<open>Rcon\<close> is at most 10. The compiled configuration has \<open>Nk = 8\<close> and \<open>Nr = 22\<close>, so the
  second loop of \<^verbatim>\<open>KeyExpansion\<close> runs to word 91 and reads \<open>Rcon[11]\<close> at word 88, past
  the 11 entries of the table: in the model the key expansion has no result.
\<close>

theorem C10_rcon_index_out_of_range:
  "Nk shipped \<le> 88 \<and> 88 < Nb * (Nr shipped + 1) \<and> 88 mod Nk shipped = 0 \<and> 88 div Nk shipped = 11
   \<and> length Rcon = 11 \<and> Rcon_at (88 div Nk shipped) = None \<and> KeyExpansion shipped rk key = None"
proof -
  have n: "Nk shipped = 8" "Nr shipped = 22"
    by (simp_all add: Nk_def Nr_def shipped_def)
  show ?thesis
    by (simp add: KeyExpansion_shipped n Nb_def Rcon_at_def Rcon_def)
qed

end
